theory Spec2Isabelle
  imports
    Main
    "HOL-Library.AList"
    "HOL-Library.Char_ord"
    "HOL-Library.List_Lexorder"
    "HOL-Library.Multiset"
begin

section \<open>The library the tracker calls\<close>

text \<open>
  \<^verbatim>\<open>health_tracker.py\<close> is one class, \<^verbatim>\<open>WomensHealthTracker\<close>, over a dictionary
  \<^verbatim>\<open>self.data\<close> and a file \<^verbatim>\<open>user_data.json\<close>. Its methods call three pieces of the
  Python standard library: \<^verbatim>\<open>datetime.strptime(s, "%Y-%m-%d")\<close>, the arithmetic of
  \<^verbatim>\<open>datetime\<close> with \<^verbatim>\<open>timedelta(days=n)\<close>, and \<^verbatim>\<open>str\<close> of a \<^verbatim>\<open>date\<close>.
  They are modelled first, following CPython's \<^verbatim>\<open>Lib/_strptime.py\<close> and
  \<^verbatim>\<open>Lib/_pydatetime.py\<close>. Strings are \<^typ>\<open>string\<close>: the characters of the model are
  8-bit, so the model speaks about ASCII input (Python's \<^verbatim>\<open>\d\<close> also accepts the decimal
  digits of other scripts; such input is outside the model).
\<close>

subsection \<open>Exceptions\<close>

text \<open>
  The exceptions a method of the class can meet: \<^verbatim>\<open>ValueError\<close> (raised by
  \<^verbatim>\<open>strptime\<close>) and \<^verbatim>\<open>OverflowError\<close> (raised by \<^verbatim>\<open>timedelta\<close> and by date
  arithmetic). A computation that may raise has a result of type \<open>py_exn + 'a\<close>.
\<close>

datatype py_exn = ValueError | OverflowError

subsection \<open>Proleptic Gregorian dates\<close>

record date =
  year :: int
  month :: int
  day :: int

definition MINYEAR :: int where
  "MINYEAR = 1"

definition MAXYEAR :: int where
  "MAXYEAR = 9999"

text \<open>\<^verbatim>\<open>_MAXORDINAL = 3652059\<close>, the ordinal of 9999-12-31.\<close>

definition MAXORDINAL :: int where
  "MAXORDINAL = 3652059"

text \<open>\<^verbatim>\<open>_DAYS_IN_MONTH = [-1, 31, 28, 31, 30, 31, 30, 31, 31, 30, 31, 30, 31]\<close>\<close>

definition DAYS_IN_MONTH :: "int \<Rightarrow> int" where
  "DAYS_IN_MONTH m = [-1, 31, 28, 31, 30, 31, 30, 31, 31, 30, 31, 30, 31] ! nat m"

text \<open>\<^verbatim>\<open>_DAYS_BEFORE_MONTH\<close>: the running sums of the table above.\<close>

definition DAYS_BEFORE_MONTH :: "int \<Rightarrow> int" where
  "DAYS_BEFORE_MONTH m = [-1, 0, 31, 59, 90, 120, 151, 181, 212, 243, 273, 304, 334] ! nat m"

definition is_leap :: "int \<Rightarrow> bool" where
  "is_leap y = (y mod 4 = 0 \<and> (y mod 100 \<noteq> 0 \<or> y mod 400 = 0))"

definition days_before_year :: "int \<Rightarrow> int" where
  "days_before_year y = (let z = y - 1 in z * 365 + z div 4 - z div 100 + z div 400)"

definition days_in_month :: "int \<Rightarrow> int \<Rightarrow> int" where
  "days_in_month y m = (if m = 2 \<and> is_leap y then 29 else DAYS_IN_MONTH m)"

definition days_before_month :: "int \<Rightarrow> int \<Rightarrow> int" where
  "days_before_month y m = DAYS_BEFORE_MONTH m + (if m > 2 \<and> is_leap y then 1 else 0)"

text \<open>\<^verbatim>\<open>_check_date_fields\<close>: what the constructor of a date accepts.\<close>

definition check_date_fields :: "int \<Rightarrow> int \<Rightarrow> int \<Rightarrow> bool" where
  "check_date_fields y m d =
     (MINYEAR \<le> y \<and> y \<le> MAXYEAR \<and> 1 \<le> m \<and> m \<le> 12 \<and> 1 \<le> d \<and> d \<le> days_in_month y m)"

definition ymd2ord :: "int \<Rightarrow> int \<Rightarrow> int \<Rightarrow> int" where
  "ymd2ord y m d = days_before_year y + days_before_month y m + d"

definition toordinal :: "date \<Rightarrow> int" where
  "toordinal dt = ymd2ord (year dt) (month dt) (day dt)"

text \<open>
  \<^verbatim>\<open>_ord2ymd\<close>, with \<^verbatim>\<open>_DI400Y = 146097\<close>, \<^verbatim>\<open>_DI100Y = 36524\<close> and
  \<^verbatim>\<open>_DI4Y = 1461\<close>; \<^verbatim>\<open>(n + 50) >> 5\<close> is a division by 32.
\<close>

definition ord2ymd :: "int \<Rightarrow> date" where
  "ord2ymd n0 =
     (let n = n0 - 1;
          n400 = n div 146097; n = n mod 146097;
          y = n400 * 400 + 1;
          n100 = n div 36524; n = n mod 36524;
          n4 = n div 1461; n = n mod 1461;
          n1 = n div 365; n = n mod 365;
          y = y + n100 * 100 + n4 * 4 + n1
      in if n1 = 4 \<or> n100 = 4 then \<lparr>year = y - 1, month = 12, day = 31\<rparr>
         else
           let leapyear = (n1 = 3 \<and> (n4 \<noteq> 24 \<or> n100 = 3));
               m = (n + 50) div 32;
               preceding = DAYS_BEFORE_MONTH m + (if m > 2 \<and> leapyear then 1 else 0)
           in if preceding > n
              then let m' = m - 1;
                       preceding' = preceding - (DAYS_IN_MONTH m' + (if m' = 2 \<and> leapyear then 1 else 0))
                   in \<lparr>year = y, month = m', day = n - preceding' + 1\<rparr>
              else \<lparr>year = y, month = m, day = n - preceding + 1\<rparr>)"

text \<open>
  \<^verbatim>\<open>timedelta(days=n)\<close> raises \<^verbatim>\<open>OverflowError\<close> beyond 999999999 days in either
  direction; otherwise it is the number of days.
\<close>

definition timedelta :: "int \<Rightarrow> py_exn + int" where
  "timedelta days = (if \<bar>days\<bar> > 999999999 then Inl OverflowError else Inr days)"

text \<open>
  \<^verbatim>\<open>datetime + timedelta\<close> for a midnight datetime and whole days: the sum of the
  ordinals, a date again when it lies in \<^verbatim>\<open>1 .. _MAXORDINAL\<close>, \<^verbatim>\<open>OverflowError\<close>
  otherwise. \<^verbatim>\<open>datetime - timedelta\<close> is \<^verbatim>\<open>self + -other\<close>.
\<close>

definition date_add :: "date \<Rightarrow> int \<Rightarrow> py_exn + date" where
  "date_add dt n =
     (let ord = toordinal dt + n
      in if 0 < ord \<and> ord \<le> MAXORDINAL then Inr (ord2ymd ord) else Inl OverflowError)"

definition date_sub :: "date \<Rightarrow> int \<Rightarrow> py_exn + date" where
  "date_sub dt n = date_add dt (- n)"

subsection \<open>Printing a date\<close>

definition digit_char :: "nat \<Rightarrow> char" where
  "digit_char n = ''0123456789'' ! n"

text \<open>Decimal digits of a natural number, as \<^verbatim>\<open>%d\<close> prints them.\<close>

fun str_nat :: "nat \<Rightarrow> string" where
  "str_nat n = (if n < 10 then [digit_char n] else str_nat (n div 10) @ [digit_char (n mod 10)])"

declare str_nat.simps [simp del]

text \<open>\<^verbatim>\<open>%0wd\<close> for a non-negative number: zeros on the left up to width \<open>w\<close>.\<close>

definition zero_pad :: "nat \<Rightarrow> int \<Rightarrow> string" where
  "zero_pad w n = (let s = str_nat (nat n) in replicate (w - length s) (CHR ''0'') @ s)"

text \<open>\<^verbatim>\<open>str(d)\<close> is \<^verbatim>\<open>d.isoformat()\<close>: \<^verbatim>\<open>"%04d-%02d-%02d" % (year, month, day)\<close>.\<close>

definition isoformat :: "date \<Rightarrow> string" where
  "isoformat dt = zero_pad 4 (year dt) @ ''-'' @ zero_pad 2 (month dt) @ ''-'' @ zero_pad 2 (day dt)"

text \<open>
  Date objects compare by year, then month, then day (\<^verbatim>\<open>date.__lt__\<close> compares the
  triples).
\<close>

definition date_less :: "date \<Rightarrow> date \<Rightarrow> bool" where
  "date_less a b =
     (year a < year b \<or>
      year a = year b \<and> (month a < month b \<or> month a = month b \<and> day a < day b))"

subsection \<open>Fixed-width decimal numerals\<close>

text \<open>
  \<open>digs w n\<close> is the numeral of \<open>n\<close> in exactly \<open>w\<close> decimal digits, the shape
  \<^verbatim>\<open>%0wd\<close> gives to any number below \<open>10 ^ w\<close>. It is used to compare the strings
  \<open>isoformat\<close> prints.
\<close>

fun digs :: "nat \<Rightarrow> nat \<Rightarrow> string" where
  "digs 0 n = []"
| "digs (Suc w) n = digs w (n div 10) @ [digit_char (n mod 10)]"

subsection \<open>Parsing a date: \<^verbatim>\<open>strptime(s, "%Y-%m-%d")\<close>\<close>

text \<open>
  \<^verbatim>\<open>_strptime\<close> turns the format into the regular expression
  \<^verbatim>\<open>(?P<Y>\d\d\d\d)-(?P<m>1[0-2]|0[1-9]|[1-9])-(?P<d>3[0-1]|[1-2]\d|0[1-9]|[1-9]| [1-9])\<close>,
  matches it at the start of the string, and raises \<^verbatim>\<open>ValueError\<close> when there is no
  match or when the match does not end at the end of the string. A matcher returns its
  matches in the order a backtracking engine tries them, each with the text that is left.
\<close>

type_synonym matcher = "string \<Rightarrow> (string \<times> string) list"

fun one_of :: "string \<Rightarrow> matcher" where
  "one_of cs [] = []"
| "one_of cs (c # rest) = (if c \<in> set cs then [([c], rest)] else [])"

definition seq :: "matcher \<Rightarrow> matcher \<Rightarrow> matcher" where
  "seq p q s = concat (map (\<lambda>(a, r). map (\<lambda>(b, r'). (a @ b, r')) (q r)) (p s))"

definition alt :: "matcher \<Rightarrow> matcher \<Rightarrow> matcher" where
  "alt p q s = p s @ q s"

definition digits :: string where
  "digits = ''0123456789''"

definition nonzero :: string where
  "nonzero = ''123456789''"

definition re_Y :: matcher where
  "re_Y = seq (one_of digits) (seq (one_of digits) (seq (one_of digits) (one_of digits)))"

definition re_m :: matcher where
  "re_m = alt (seq (one_of ''1'') (one_of ''012''))
         (alt (seq (one_of ''0'') (one_of nonzero))
              (one_of nonzero))"

definition re_d :: matcher where
  "re_d = alt (seq (one_of ''3'') (one_of ''01''))
         (alt (seq (one_of ''12'') (one_of digits))
         (alt (seq (one_of ''0'') (one_of nonzero))
         (alt (one_of nonzero)
              (seq (one_of '' '') (one_of nonzero)))))"

text \<open>The whole pattern: the three groups of each match, and the text left after it.\<close>

definition format_regex :: "string \<Rightarrow> ((string \<times> string \<times> string) \<times> string) list" where
  "format_regex s =
     concat (map (\<lambda>(y, r1).
       concat (map (\<lambda>(_, r2).
         concat (map (\<lambda>(m, r3).
           concat (map (\<lambda>(_, r4).
             map (\<lambda>(d, r5). ((y, m, d), r5)) (re_d r4))
           (one_of ''-'' r3)))
         (re_m r2)))
       (one_of ''-'' r1)))
     (re_Y s))"

text \<open>\<^verbatim>\<open>int(s)\<close> on a string of ASCII digits; a leading space (day group) is skipped.\<close>

definition digit_val :: "char \<Rightarrow> int" where
  "digit_val c = int (of_char c) - 48"

definition int_of_str :: "string \<Rightarrow> int" where
  "int_of_str s = foldl (\<lambda>a c. 10 * a + digit_val c) 0 (filter (\<lambda>c. c \<noteq> CHR '' '') s)"

definition strptime :: "string \<Rightarrow> py_exn + date" where
  "strptime s =
     (case format_regex s of
        [] \<Rightarrow> Inl ValueError
      | ((y, m, d), rest) # _ \<Rightarrow>
          if rest \<noteq> [] then Inl ValueError
          else let yy = int_of_str y; mm = int_of_str m; dd = int_of_str d
               in if check_date_fields yy mm dd
                  then Inr \<lparr>year = yy, month = mm, day = dd\<rparr>
                  else Inl ValueError)"

subsection \<open>Dates the library can represent\<close>

text \<open>
  A date object always satisfies \<open>check_date_fields\<close>. \<open>tail_ok y lp r X\<close> says that
  \<open>X\<close> is day number \<open>r\<close> (from 0) of year \<open>y\<close>, where \<open>lp\<close> tells whether the year is
  a leap year: what the second half of \<open>ord2ymd\<close> has to compute.
\<close>

definition valid_date :: "date \<Rightarrow> bool" where
  "valid_date dt = check_date_fields (year dt) (month dt) (day dt)"

definition tail_ok :: "int \<Rightarrow> bool \<Rightarrow> int \<Rightarrow> date \<Rightarrow> bool" where
  "tail_ok y lp r X =
     (year X = y \<and> 1 \<le> month X \<and> month X \<le> 12 \<and> 1 \<le> day X \<and>
      day X \<le> DAYS_IN_MONTH (month X) + (if month X = 2 \<and> lp then 1 else 0) \<and>
      DAYS_BEFORE_MONTH (month X) + (if month X > 2 \<and> lp then 1 else 0) + day X = r + 1)"

section \<open>The data of the tracker\<close>

text \<open>
  \<^verbatim>\<open>self.data\<close> maps a username to a dictionary with the four keys that
  \<^verbatim>\<open>register_user\<close> writes. A symptom is \<^verbatim>\<open>{"symptom": ..., "date": ...}\<close>, a reminder
  \<^verbatim>\<open>{"reminder": ..., "date": ...}\<close>; every date is kept as a string.
\<close>

record symptom_entry =
  symptom :: string
  s_date :: string

record reminder_entry =
  reminder :: string
  r_date :: string

record user =
  last_cycle_date :: "string option"
  cycle_length :: int
  symptoms :: "symptom_entry list"
  reminders :: "reminder_entry list"

text \<open>
  A Python dictionary keeps its keys in insertion order, and \<^verbatim>\<open>json.dump\<close> writes them
  in that order: the store is an association list. \<^verbatim>\<open>d[k] = v\<close> is
  \<^const>\<open>AList.update\<close>: it replaces the value of a key in place and puts a new key last.
\<close>

type_synonym store = "(string \<times> user) list"

subsection \<open>The file \<^verbatim>\<open>user_data.json\<close>\<close>

text \<open>
  The values JSON can hold. \<^verbatim>\<open>json.dump\<close> writes a \<^verbatim>\<open>dict\<close> as an object, a
  \<^verbatim>\<open>list\<close> as an array, a \<^verbatim>\<open>str\<close> as a string, an \<^verbatim>\<open>int\<close> as a number and
  \<^verbatim>\<open>None\<close> as \<^verbatim>\<open>null\<close>; \<^verbatim>\<open>json.load\<close> reads them back the same way. The file
  is modelled by the document it holds, or as corrupted when its text is not JSON (the
  case in which \<^verbatim>\<open>json.load\<close> raises \<^verbatim>\<open>JSONDecodeError\<close>); the characters that
  \<^verbatim>\<open>json\<close> writes for a document are not modelled.
\<close>

datatype json =
  JNull
| JInt int
| JString string
| JArray "json list"
| JObject "(string \<times> json) list"

datatype file_content = Corrupted | Document json

record tracker =
  data :: store
  DATA_FILE :: "file_content option"

definition json_of_symptom :: "symptom_entry \<Rightarrow> json" where
  "json_of_symptom e = JObject [(''symptom'', JString (symptom e)), (''date'', JString (s_date e))]"

definition json_of_reminder :: "reminder_entry \<Rightarrow> json" where
  "json_of_reminder e = JObject [(''reminder'', JString (reminder e)), (''date'', JString (r_date e))]"

definition json_of_user :: "user \<Rightarrow> json" where
  "json_of_user r =
     JObject [
       (''last_cycle_date'', (case last_cycle_date r of None \<Rightarrow> JNull | Some s \<Rightarrow> JString s)),
       (''cycle_length'', JInt (cycle_length r)),
       (''symptoms'', JArray (map json_of_symptom (symptoms r))),
       (''reminders'', JArray (map json_of_reminder (reminders r)))]"

text \<open>\<^verbatim>\<open>json.dump(self.data, file, indent=4)\<close>: the document written for the store.\<close>

definition json_dump :: "store \<Rightarrow> json" where
  "json_dump d = JObject (map (\<lambda>(u, r). (u, json_of_user r)) d)"

definition save_data :: "tracker \<Rightarrow> tracker" where
  "save_data s = s\<lparr>DATA_FILE := Some (Document (json_dump (data s)))\<rparr>"

text \<open>
  Reading back. \<^verbatim>\<open>json.load\<close> builds a \<^verbatim>\<open>dict\<close> from the pairs of an object in their
  order, a repeated key keeping its first place and its last value. The readers below
  give the typed value a loaded Python value stands for, and \<open>None\<close> for a value that is
  not of the shape the methods build (the typed model has no store for it).
\<close>

definition py_dict :: "(string \<times> 'a) list \<Rightarrow> (string \<times> 'a) list" where
  "py_dict kvs = foldl (\<lambda>d (k, v). AList.update k v d) [] kvs"

definition symptom_of_json :: "json \<Rightarrow> symptom_entry option" where
  "symptom_of_json j =
     (case j of
        JObject kvs \<Rightarrow>
          (let d = py_dict kvs
           in if set (map fst d) = {''symptom'', ''date''}
              then (case (map_of d ''symptom'', map_of d ''date'') of
                      (Some (JString a), Some (JString b)) \<Rightarrow> Some \<lparr>symptom = a, s_date = b\<rparr>
                    | _ \<Rightarrow> None)
              else None)
      | _ \<Rightarrow> None)"

definition reminder_of_json :: "json \<Rightarrow> reminder_entry option" where
  "reminder_of_json j =
     (case j of
        JObject kvs \<Rightarrow>
          (let d = py_dict kvs
           in if set (map fst d) = {''reminder'', ''date''}
              then (case (map_of d ''reminder'', map_of d ''date'') of
                      (Some (JString a), Some (JString b)) \<Rightarrow> Some \<lparr>reminder = a, r_date = b\<rparr>
                    | _ \<Rightarrow> None)
              else None)
      | _ \<Rightarrow> None)"

definition date_of_json :: "json \<Rightarrow> string option option" where
  "date_of_json j = (case j of JNull \<Rightarrow> Some None | JString s \<Rightarrow> Some (Some s) | _ \<Rightarrow> None)"

definition user_of_json :: "json \<Rightarrow> user option" where
  "user_of_json j =
     (case j of
        JObject kvs \<Rightarrow>
          (let d = py_dict kvs
           in if set (map fst d) = {''last_cycle_date'', ''cycle_length'', ''symptoms'', ''reminders''}
              then (case (map_of d ''last_cycle_date'', map_of d ''cycle_length'',
                          map_of d ''symptoms'', map_of d ''reminders'') of
                      (Some jd, Some (JInt n), Some (JArray ss), Some (JArray rs)) \<Rightarrow>
                        (case (date_of_json jd, those (map symptom_of_json ss),
                               those (map reminder_of_json rs)) of
                           (Some lcd, Some syms, Some rems) \<Rightarrow>
                             Some \<lparr>last_cycle_date = lcd, cycle_length = n,
                                   symptoms = syms, reminders = rems\<rparr>
                         | _ \<Rightarrow> None)
                    | _ \<Rightarrow> None)
              else None)
      | _ \<Rightarrow> None)"

definition store_of_json :: "json \<Rightarrow> store option" where
  "store_of_json j =
     (case j of
        JObject kvs \<Rightarrow> those (map (\<lambda>(u, v). map_option (Pair u) (user_of_json v)) (py_dict kvs))
      | _ \<Rightarrow> None)"

text \<open>
  \<^verbatim>\<open>load_data\<close>: the empty dictionary when the file does not exist or is corrupted,
  what \<^verbatim>\<open>json.load\<close> returns otherwise.
\<close>

definition load_data :: "file_content option \<Rightarrow> store option" where
  "load_data f =
     (case f of
        None \<Rightarrow> Some []
      | Some Corrupted \<Rightarrow> Some []
      | Some (Document j) \<Rightarrow> store_of_json j)"

section \<open>The operations\<close>

text \<open>
  A method returns a string, or raises; it may change \<^verbatim>\<open>self.data\<close> and the file. It
  is modelled as a function from the tracker to the outcome and the tracker after it. The
  error messages are named after the errors of the specification.
\<close>

type_synonym outcome = "(py_exn + string) \<times> tracker"

text \<open>\<^verbatim>\<open>'{x}'\<close> inside an f-string.\<close>

definition quoted :: "string \<Rightarrow> string" where
  "quoted x = [CHR 0x27] @ x @ [CHR 0x27]"

definition DuplicateUser :: "string \<Rightarrow> string" where
  "DuplicateUser username = ''Error: User '' @ quoted username @ '' already exists.''"

definition UserNotFound :: string where
  "UserNotFound = ''Error: User not found.''"

definition InvalidDate :: string where
  "InvalidDate = ''Error: Invalid date format. Use YYYY-MM-DD.''"

definition NoCycleDetails :: string where
  "NoCycleDetails = ''Error: No cycle details found. Please set your cycle details first.''"

definition register_user :: "tracker \<Rightarrow> string \<Rightarrow> outcome" where
  "register_user s username =
     (if map_of (data s) username \<noteq> None
      then (Inr (DuplicateUser username), s)
      else
        let s1 = s\<lparr>data := AList.update username
                     \<lparr>last_cycle_date = None, cycle_length = 28, symptoms = [], reminders = []\<rparr>
                     (data s)\<rparr>;
            s2 = save_data s1
        in (Inr (''User '' @ quoted username @ '' registered successfully!''), s2))"

definition set_cycle_details :: "tracker \<Rightarrow> string \<Rightarrow> string \<Rightarrow> int \<Rightarrow> outcome" where
  "set_cycle_details s username date_str length_days =
     (case map_of (data s) username of
        None \<Rightarrow> (Inr UserNotFound, s)
      | Some r \<Rightarrow>
          (case strptime date_str of
             Inl ValueError \<Rightarrow> (Inr InvalidDate, s)
           | Inl e \<Rightarrow> (Inl e, s)
           | Inr _ \<Rightarrow>
               let r1 = r\<lparr>last_cycle_date := Some date_str\<rparr>;
                   r2 = r1\<lparr>cycle_length := length_days\<rparr>;
                   s1 = s\<lparr>data := AList.update username r2 (data s)\<rparr>;
                   s2 = save_data s1
               in (Inr (''Cycle details updated for '' @ quoted username @ ''.''), s2)))"

text \<open>\<^verbatim>\<open>str(datetime.now().date())\<close>: the clock is an argument, \<open>today\<close>.\<close>

definition add_symptom :: "date \<Rightarrow> tracker \<Rightarrow> string \<Rightarrow> string \<Rightarrow> outcome" where
  "add_symptom today s username symptom_text =
     (case map_of (data s) username of
        None \<Rightarrow> (Inr UserNotFound, s)
      | Some r \<Rightarrow>
          let r1 = r\<lparr>symptoms := symptoms r @ [\<lparr>symptom = symptom_text, s_date = isoformat today\<rparr>]\<rparr>;
              s1 = s\<lparr>data := AList.update username r1 (data s)\<rparr>;
              s2 = save_data s1
          in (Inr (''Symptom '' @ quoted symptom_text @ '' logged for '' @ quoted username @ ''.''), s2))"

text \<open>
  The expression both \<^verbatim>\<open>add_reminder\<close> and \<^verbatim>\<open>predict_next_cycle\<close> evaluate:
  \<^verbatim>\<open>datetime.strptime(last_cycle_date, "%Y-%m-%d") + timedelta(days=cycle_length)\<close>,
  left to right. Before it, \<^verbatim>\<open>if not last_cycle_date\<close> is true of \<^verbatim>\<open>None\<close> and of
  the empty string.
\<close>

definition next_cycle_date :: "string \<Rightarrow> int \<Rightarrow> py_exn + date" where
  "next_cycle_date lcd len =
     (case strptime lcd of
        Inl e \<Rightarrow> Inl e
      | Inr dt \<Rightarrow>
          (case timedelta len of
             Inl e \<Rightarrow> Inl e
           | Inr td \<Rightarrow> date_add dt td))"

definition add_reminder :: "tracker \<Rightarrow> string \<Rightarrow> string \<Rightarrow> int \<Rightarrow> outcome" where
  "add_reminder s username reminder_text days_before =
     (case map_of (data s) username of
        None \<Rightarrow> (Inr UserNotFound, s)
      | Some r \<Rightarrow>
          (case last_cycle_date r of
             None \<Rightarrow> (Inr NoCycleDetails, s)
           | Some lcd \<Rightarrow>
               if lcd = [] then (Inr NoCycleDetails, s)
               else
                 (case next_cycle_date lcd (cycle_length r) of
                    Inl e \<Rightarrow> (Inl e, s)
                  | Inr next_date \<Rightarrow>
                      (case timedelta days_before of
                         Inl e \<Rightarrow> (Inl e, s)
                       | Inr td \<Rightarrow>
                           (case date_sub next_date td of
                              Inl e \<Rightarrow> (Inl e, s)
                            | Inr reminder_date \<Rightarrow>
                                let r1 = r\<lparr>reminders := reminders r @
                                           [\<lparr>reminder = reminder_text,
                                             r_date = isoformat reminder_date\<rparr>]\<rparr>;
                                    s1 = s\<lparr>data := AList.update username r1 (data s)\<rparr>;
                                    s2 = save_data s1
                                in (Inr (''Reminder '' @ quoted reminder_text @ '' added for ''
                                         @ username @ '' on '' @ isoformat reminder_date @ ''.''),
                                    s2))))))"

text \<open>\<^verbatim>\<open>sep.join(xs)\<close>\<close>

fun join :: "string \<Rightarrow> string list \<Rightarrow> string" where
  "join sep [] = []"
| "join sep [x] = x"
| "join sep (x # y # ys) = x @ sep @ join sep (y # ys)"

definition reminder_line :: "reminder_entry \<Rightarrow> string" where
  "reminder_line r = ''- '' @ reminder r @ '' on '' @ r_date r"

definition symptom_line :: "symptom_entry \<Rightarrow> string" where
  "symptom_line e = ''- '' @ symptom e @ '' (logged on '' @ s_date e @ '')''"

text \<open>
  \<^verbatim>\<open>sorted(reminders, key=lambda x: x["date"])\<close> is a stable sort on the date strings,
  compared as Python compares strings (character by character, a prefix first):
  \<^const>\<open>sort_key\<close> over the lexicographic order of \<^typ>\<open>string\<close>.
\<close>

definition view_reminders :: "tracker \<Rightarrow> string \<Rightarrow> outcome" where
  "view_reminders s username =
     (case map_of (data s) username of
        None \<Rightarrow> (Inr UserNotFound, s)
      | Some r \<Rightarrow>
          if reminders r = [] then (Inr ''No reminders set.'', s)
          else (Inr (join ''\<newline>'' (map reminder_line (sort_key r_date (reminders r)))), s))"

definition predict_next_cycle :: "tracker \<Rightarrow> string \<Rightarrow> outcome" where
  "predict_next_cycle s username =
     (case map_of (data s) username of
        None \<Rightarrow> (Inr UserNotFound, s)
      | Some r \<Rightarrow>
          (case last_cycle_date r of
             None \<Rightarrow> (Inr NoCycleDetails, s)
           | Some lcd \<Rightarrow>
               if lcd = [] then (Inr NoCycleDetails, s)
               else
                 (case next_cycle_date lcd (cycle_length r) of
                    Inl e \<Rightarrow> (Inl e, s)
                  | Inr next_date \<Rightarrow>
                      (Inr (''Next cycle for '' @ username @ '' is predicted on ''
                            @ isoformat next_date @ ''.''), s))))"

definition view_symptoms :: "tracker \<Rightarrow> string \<Rightarrow> outcome" where
  "view_symptoms s username =
     (case map_of (data s) username of
        None \<Rightarrow> (Inr UserNotFound, s)
      | Some r \<Rightarrow>
          if symptoms r = [] then (Inr ''No symptoms logged.'', s)
          else (Inr (join ''\<newline>'' (map symptom_line (symptoms r))), s))"

subsection \<open>Sessions\<close>

text \<open>
  The menu of \<^verbatim>\<open>main\<close> calls one method per choice, on a tracker that starts from
  \<^verbatim>\<open>load_data\<close>. A session is a list of calls; \<open>init\<close> is the tracker of a first start
  (no file, the empty dictionary). A call that raises leaves the tracker as it was when
  the exception left the method.
\<close>

datatype op =
  RegisterUser string
| SetCycleDetails string string int
| AddSymptom date string string
| AddReminder string string int
| ViewReminders string
| PredictNextCycle string
| ViewSymptoms string

fun run_op :: "tracker \<Rightarrow> op \<Rightarrow> outcome" where
  "run_op s (RegisterUser u) = register_user s u"
| "run_op s (SetCycleDetails u d n) = set_cycle_details s u d n"
| "run_op s (AddSymptom today u x) = add_symptom today s u x"
| "run_op s (AddReminder u x n) = add_reminder s u x n"
| "run_op s (ViewReminders u) = view_reminders s u"
| "run_op s (PredictNextCycle u) = predict_next_cycle s u"
| "run_op s (ViewSymptoms u) = view_symptoms s u"

fun run_ops :: "tracker \<Rightarrow> op list \<Rightarrow> tracker" where
  "run_ops s [] = s"
| "run_ops s (x # xs) = run_ops (snd (run_op s x)) xs"

definition init :: tracker where
  "init = \<lparr>data = [], DATA_FILE = None\<rparr>"

text \<open>The calls that only read: options 5, 6 and 7 of the menu.\<close>

fun read_only :: "op \<Rightarrow> bool" where
  "read_only (ViewReminders u) = True"
| "read_only (PredictNextCycle u) = True"
| "read_only (ViewSymptoms u) = True"
| "read_only _ = False"

subsection \<open>Sample trackers\<close>

text \<open>
  Records and trackers the examples below run on: \<open>alice0\<close> is a record as
  \<^verbatim>\<open>register_user\<close> creates it, \<open>alice1\<close> the same record after
  \<^verbatim>\<open>set_cycle_details(..., "2024-01-01", 28)\<close>, and \<open>tracker_of d\<close> the tracker whose
  file was written from \<open>d\<close>.
\<close>

definition alice0 :: user where
  "alice0 = \<lparr>last_cycle_date = None, cycle_length = 28, symptoms = [], reminders = []\<rparr>"

definition alice1 :: user where
  "alice1 = \<lparr>last_cycle_date = Some ''2024-01-01'', cycle_length = 28, symptoms = [], reminders = []\<rparr>"

definition tracker_of :: "store \<Rightarrow> tracker" where
  "tracker_of d = \<lparr>data = d, DATA_FILE = Some (Document (json_dump d))\<rparr>"

subsection \<open>What every session keeps\<close>

text \<open>
  The stores a session builds have one entry per username, and a last cycle date, once
  set, is a string that \<open>strptime\<close> accepts (the only assignment to it follows the
  \<^verbatim>\<open>try\<close> of \<^verbatim>\<open>set_cycle_details\<close>).
\<close>

definition date_ok :: "string option \<Rightarrow> bool" where
  "date_ok v = (case v of None \<Rightarrow> True | Some x \<Rightarrow> \<not> isl (strptime x))"

definition store_ok :: "store \<Rightarrow> bool" where
  "store_ok d = (distinct (map fst d) \<and> list_all (\<lambda>(u, r). date_ok (last_cycle_date r)) d)"

text \<open>
  A session of the menu and the record it leaves for \<^verbatim>\<open>alice\<close>: registration, cycle
  details, three reminders added out of date order (two of them for the same day), two
  symptoms logged with the clock set back in between, and a second user.
\<close>

definition alice2 :: user where
  "alice2 = \<lparr>last_cycle_date = Some ''2024-01-01'', cycle_length = 28,
     symptoms = [\<lparr>symptom = ''cramps'', s_date = ''2024-03-09''\<rparr>,
                 \<lparr>symptom = ''headache'', s_date = ''2024-03-08''\<rparr>],
     reminders = [\<lparr>reminder = ''Buy supplies'', r_date = ''2024-01-24''\<rparr>,
                  \<lparr>reminder = ''Early'', r_date = ''2024-01-09''\<rparr>,
                  \<lparr>reminder = ''Call'', r_date = ''2024-01-24''\<rparr>]\<rparr>"

definition session2 :: "op list" where
  "session2 = [RegisterUser ''alice'', SetCycleDetails ''alice'' ''2024-01-01'' 28,
     AddReminder ''alice'' ''Buy supplies'' 5, ViewReminders ''alice'',
     AddSymptom \<lparr>year = 2024, month = 3, day = 9\<rparr> ''alice'' ''cramps'',
     AddReminder ''alice'' ''Early'' 20, AddReminder ''alice'' ''Call'' 5,
     AddSymptom \<lparr>year = 2024, month = 3, day = 8\<rparr> ''alice'' ''headache'',
     RegisterUser ''bob'']"

subsection \<open>Stored reminder dates\<close>

text \<open>
  Every reminder date a session stores was printed by \<open>isoformat\<close> from a date object.
\<close>

definition iso_date :: "string \<Rightarrow> bool" where
  "iso_date x = (\<exists>dt. valid_date dt \<and> x = isoformat dt)"

definition reminders_ok :: "store \<Rightarrow> bool" where
  "reminders_ok d = list_all (\<lambda>(u, r). list_all (\<lambda>e. iso_date (r_date e)) (reminders r)) d"

section \<open>Properties\<close>

subsection \<open>The calendar arithmetic of the library\<close>

text \<open>
  \<open>ord2ymd\<close> inverts \<open>toordinal\<close>: for every ordinal from 1 on it returns a date with
  that ordinal whose month and day exist, and whose year is at most 9999 when the ordinal
  is at most \<open>MAXORDINAL\<close>. So a date plus \<open>n\<close> days is the date \<open>n\<close> days later in the
  count of days.
\<close>

lemma DBM_simps:
  "DAYS_BEFORE_MONTH 1 = 0" "DAYS_BEFORE_MONTH 2 = 31" "DAYS_BEFORE_MONTH 3 = 59"
  "DAYS_BEFORE_MONTH 4 = 90" "DAYS_BEFORE_MONTH 5 = 120" "DAYS_BEFORE_MONTH 6 = 151"
  "DAYS_BEFORE_MONTH 7 = 181" "DAYS_BEFORE_MONTH 8 = 212" "DAYS_BEFORE_MONTH 9 = 243"
  "DAYS_BEFORE_MONTH 10 = 273" "DAYS_BEFORE_MONTH 11 = 304" "DAYS_BEFORE_MONTH 12 = 334"
  by (simp_all add: DAYS_BEFORE_MONTH_def)

lemma DIM_simps:
  "DAYS_IN_MONTH 1 = 31" "DAYS_IN_MONTH 2 = 28" "DAYS_IN_MONTH 3 = 31"
  "DAYS_IN_MONTH 4 = 30" "DAYS_IN_MONTH 5 = 31" "DAYS_IN_MONTH 6 = 30"
  "DAYS_IN_MONTH 7 = 31" "DAYS_IN_MONTH 8 = 31" "DAYS_IN_MONTH 9 = 30"
  "DAYS_IN_MONTH 10 = 31" "DAYS_IN_MONTH 11 = 30" "DAYS_IN_MONTH 12 = 31"
  by (simp_all add: DAYS_IN_MONTH_def)

lemma month_cases:
  fixes m :: int
  assumes "1 \<le> m" "m \<le> 12"
  shows "m = 1 \<or> m = 2 \<or> m = 3 \<or> m = 4 \<or> m = 5 \<or> m = 6 \<or> m = 7 \<or> m = 8 \<or> m = 9 \<or> m = 10
     \<or> m = 11 \<or> m = 12"
  using assms by arith

lemma ord2ymd_tail:
  fixes r :: int
  assumes r: "0 \<le> r" "r < 365"
  shows "tail_ok y lp r
     (let m = (r + 50) div 32;
          preceding = DAYS_BEFORE_MONTH m + (if m > 2 \<and> lp then 1 else 0)
      in if preceding > r
         then let m' = m - 1;
                  preceding' = preceding - (DAYS_IN_MONTH m' + (if m' = 2 \<and> lp then 1 else 0))
              in \<lparr>year = y, month = m', day = r - preceding' + 1\<rparr>
         else \<lparr>year = y, month = m, day = r - preceding + 1\<rparr>)"
proof -
  define m where "m = (r + 50) div 32"
  have lo: "32 * m \<le> r + 50" and hi: "r + 50 < 32 * m + 32"
    unfolding m_def by presburger+
  with r have "1 \<le> m" "m \<le> 12" by arith+
  then have "m = 1 \<or> m = 2 \<or> m = 3 \<or> m = 4 \<or> m = 5 \<or> m = 6 \<or> m = 7 \<or> m = 8 \<or> m = 9 \<or> m = 10
     \<or> m = 11 \<or> m = 12"
    by (rule month_cases)
  then show ?thesis
    unfolding m_def [symmetric] Let_def
    using lo hi r
    by (elim disjE) (simp_all add: tail_ok_def DBM_simps DIM_simps)
qed

lemma div_unique_int:
  fixes z q d :: int
  assumes "d * q \<le> z" "z < d * q + d"
  shows "z div d = q"
proof -
  have "z = d * q + (z - d * q)" by simp
  moreover have "0 \<le> z - d * q" "z - d * q < d" using assms by simp_all
  ultimately show ?thesis
    by (metis div_mult_self2 div_pos_pos_trivial add.commute add.right_neutral
        less_le_not_le order.strict_trans1)
qed

lemma mod_unique_int:
  fixes z q d r :: int
  assumes "z = d * q + r" "0 \<le> r" "r < d"
  shows "z mod d = r"
  using assms by simp

lemma mod_zero_in_range:
  fixes x d :: int
  assumes "0 < x" "x \<le> d"
  shows "(x mod d = 0) = (x = d)"
proof (cases "x = d")
  case True
  then show ?thesis by simp
next
  case False
  with assms have "x mod d = x" by simp
  with assms False show ?thesis by simp
qed


lemma year_parts:
  fixes a b c e :: int
  assumes "0 \<le> b" "b \<le> 3" "0 \<le> c" "c \<le> 24" "0 \<le> e" "e \<le> 3"
  shows "(400 * a + 100 * b + 4 * c + e) div 4 = 100 * a + 25 * b + c"
    and "(400 * a + 100 * b + 4 * c + e) div 100 = 4 * a + b"
    and "(400 * a + 100 * b + 4 * c + e) div 400 = a"
  using assms by (auto intro!: div_unique_int)

lemma days_before_year_parts:
  fixes a b c e :: int
  assumes "0 \<le> b" "b \<le> 3" "0 \<le> c" "c \<le> 24" "0 \<le> e" "e \<le> 3"
  shows "days_before_year (400 * a + 100 * b + 4 * c + e + 1) =
         146097 * a + 36524 * b + 1461 * c + 365 * e"
  using year_parts [OF assms, of a] by (simp add: days_before_year_def Let_def)


lemma mod_zero_shift:
  fixes x d q :: int
  assumes "0 < x" "x \<le> d"
  shows "((d * q + x) mod d = 0) = (x = d)"
proof -
  have "(d * q + x) mod d = x mod d" by simp
  then show ?thesis using mod_zero_in_range [OF assms] by simp
qed

lemma is_leap_parts:
  fixes a b c e :: int
  assumes "0 \<le> b" "b \<le> 3" "0 \<le> c" "c \<le> 24" "0 \<le> e" "e \<le> 3"
  shows "is_leap (400 * a + 100 * b + 4 * c + e + 1) = (e = 3 \<and> (c \<noteq> 24 \<or> b = 3))"
proof -
  let ?y = "400 * a + 100 * b + 4 * c + e + 1"
  have e1: "?y = 4 * (100 * a + 25 * b + c) + (e + 1)" by simp
  have 1: "(?y mod 4 = 0) = (e + 1 = 4)"
    by (subst e1, rule mod_zero_shift) (use assms in simp_all)
  have e2: "?y = 100 * (4 * a + b) + (4 * c + e + 1)" by simp
  have 2: "(?y mod 100 = 0) = (4 * c + e + 1 = 100)"
    by (subst e2, rule mod_zero_shift) (use assms in simp_all)
  have e3: "?y = 400 * a + (100 * b + 4 * c + e + 1)" by simp
  have 3: "(?y mod 400 = 0) = (100 * b + 4 * c + e + 1 = 400)"
    by (subst e3, rule mod_zero_shift) (use assms in simp_all)
  show ?thesis unfolding is_leap_def 1 2 3 using assms by auto
qed

lemma ord2ymd_parts:
  fixes k :: int
  assumes k: "1 \<le> k"
  obtains a b c e r :: int where
    "k - 1 = 146097 * a + 36524 * b + 1461 * c + 365 * e + r"
    "0 \<le> a" "0 \<le> b" "b \<le> 4" "0 \<le> c" "c \<le> 24" "0 \<le> e" "e \<le> 4" "0 \<le> r" "r < 365"
    "36524 * b + 1461 * c + 365 * e + r < 146097"
    "1461 * c + 365 * e + r < 36524"
    "365 * e + r < 1461"
    "ord2ymd k =
       (if e = 4 \<or> b = 4 then \<lparr>year = a * 400 + 1 + b * 100 + c * 4 + e - 1, month = 12, day = 31\<rparr>
        else
          let m = (r + 50) div 32;
              preceding = DAYS_BEFORE_MONTH m + (if m > 2 \<and> (e = 3 \<and> (c \<noteq> 24 \<or> b = 3)) then 1 else 0)
          in if preceding > r
             then let m' = m - 1;
                      preceding' = preceding - (DAYS_IN_MONTH m' + (if m' = 2 \<and> (e = 3 \<and> (c \<noteq> 24 \<or> b = 3)) then 1 else 0))
                  in \<lparr>year = a * 400 + 1 + b * 100 + c * 4 + e, month = m', day = r - preceding' + 1\<rparr>
             else \<lparr>year = a * 400 + 1 + b * 100 + c * 4 + e, month = m, day = r - preceding + 1\<rparr>)"
proof -
  define n where "n = k - 1"
  define a where "a = n div 146097"
  define r400 where "r400 = n mod 146097"
  define b where "b = r400 div 36524"
  define r100 where "r100 = r400 mod 36524"
  define c where "c = r100 div 1461"
  define r4 where "r4 = r100 mod 1461"
  define e where "e = r4 div 365"
  define r where "r = r4 mod 365"
  have n0: "0 \<le> n" using k by (simp add: n_def)
  have d1: "n = 146097 * a + r400" "0 \<le> r400" "r400 < 146097"
    by (simp_all add: a_def r400_def)
  have d2: "r400 = 36524 * b + r100" "0 \<le> r100" "r100 < 36524"
    by (simp_all add: b_def r100_def)
  have d3: "r100 = 1461 * c + r4" "0 \<le> r4" "r4 < 1461"
    by (simp_all add: c_def r4_def)
  have d4: "r4 = 365 * e + r" "0 \<le> r" "r < 365"
    by (simp_all add: e_def r_def)
  have a0: "0 \<le> a" using n0 by (simp add: a_def pos_imp_zdiv_nonneg_iff)
  have b0: "0 \<le> b" using d1 by (simp add: b_def pos_imp_zdiv_nonneg_iff)
  have c0: "0 \<le> c" using d2 by (simp add: c_def pos_imp_zdiv_nonneg_iff)
  have e0: "0 \<le> e" using d3 by (simp add: e_def pos_imp_zdiv_nonneg_iff)
  have b4: "b \<le> 4" using d1 d2 by arith
  have c24: "c \<le> 24" using d2 d3 by arith
  have e4: "e \<le> 4" using d3 d4 by arith
  have eq: "ord2ymd k =
       (if e = 4 \<or> b = 4 then \<lparr>year = a * 400 + 1 + b * 100 + c * 4 + e - 1, month = 12, day = 31\<rparr>
        else
          let m = (r + 50) div 32;
              preceding = DAYS_BEFORE_MONTH m + (if m > 2 \<and> (e = 3 \<and> (c \<noteq> 24 \<or> b = 3)) then 1 else 0)
          in if preceding > r
             then let m' = m - 1;
                      preceding' = preceding - (DAYS_IN_MONTH m' + (if m' = 2 \<and> (e = 3 \<and> (c \<noteq> 24 \<or> b = 3)) then 1 else 0))
                  in \<lparr>year = a * 400 + 1 + b * 100 + c * 4 + e, month = m', day = r - preceding' + 1\<rparr>
             else \<lparr>year = a * 400 + 1 + b * 100 + c * 4 + e, month = m, day = r - preceding + 1\<rparr>)"
    unfolding ord2ymd_def Let_def r_def e_def r4_def c_def r100_def b_def r400_def a_def n_def
    by (rule refl)
  show thesis
  proof (rule that [of a b c e r])
    show "k - 1 = 146097 * a + 36524 * b + 1461 * c + 365 * e + r"
      using d1 d2 d3 d4 by (simp add: n_def)
    show "36524 * b + 1461 * c + 365 * e + r < 146097" using d1 d2 d3 d4 by simp
    show "1461 * c + 365 * e + r < 36524" using d2 d3 d4 by simp
    show "365 * e + r < 1461" using d3 d4 by simp
  qed (fact a0 b0 b4 c0 c24 e0 e4 d4 eq)+
qed

lemma ord2ymd_correct:
  fixes k :: int
  assumes k: "1 \<le> k"
  shows "toordinal (ord2ymd k) = k \<and> 1 \<le> year (ord2ymd k) \<and>
         1 \<le> month (ord2ymd k) \<and> month (ord2ymd k) \<le> 12 \<and> 1 \<le> day (ord2ymd k) \<and>
         day (ord2ymd k) \<le> days_in_month (year (ord2ymd k)) (month (ord2ymd k)) \<and>
         days_before_year (year (ord2ymd k)) < k"
proof -
  from k obtain a b c e r :: int where
    n: "k - 1 = 146097 * a + 36524 * b + 1461 * c + 365 * e + r"
    and bd: "0 \<le> a" "0 \<le> b" "b \<le> 4" "0 \<le> c" "c \<le> 24" "0 \<le> e" "e \<le> 4" "0 \<le> r" "r < 365"
    and l1: "36524 * b + 1461 * c + 365 * e + r < 146097"
    and l2: "1461 * c + 365 * e + r < 36524"
    and l3: "365 * e + r < 1461"
    and eq: "ord2ymd k =
       (if e = 4 \<or> b = 4 then \<lparr>year = a * 400 + 1 + b * 100 + c * 4 + e - 1, month = 12, day = 31\<rparr>
        else
          let m = (r + 50) div 32;
              preceding = DAYS_BEFORE_MONTH m + (if m > 2 \<and> (e = 3 \<and> (c \<noteq> 24 \<or> b = 3)) then 1 else 0)
          in if preceding > r
             then let m' = m - 1;
                      preceding' = preceding - (DAYS_IN_MONTH m' + (if m' = 2 \<and> (e = 3 \<and> (c \<noteq> 24 \<or> b = 3)) then 1 else 0))
                  in \<lparr>year = a * 400 + 1 + b * 100 + c * 4 + e, month = m', day = r - preceding' + 1\<rparr>
             else \<lparr>year = a * 400 + 1 + b * 100 + c * 4 + e, month = m, day = r - preceding + 1\<rparr>)"
    by (rule ord2ymd_parts)
  consider (century) "b = 4" | (fourth) "b \<le> 3" "e = 4" | (plain) "b \<le> 3" "e \<le> 3"
    using bd by linarith
  then show ?thesis
  proof cases
    case century
    with l1 bd have z: "c = 0" "e = 0" "r = 0" by linarith+
    have y: "ord2ymd k = \<lparr>year = 400 * a + 100 * 3 + 4 * 24 + 3 + 1, month = 12, day = 31\<rparr>"
      using eq century z by simp
    have dby: "days_before_year (400 * a + 100 * 3 + 4 * 24 + 3 + 1) =
          146097 * a + 36524 * 3 + 1461 * 24 + 365 * 3"
      by (rule days_before_year_parts) simp_all
    have lp: "is_leap (400 * a + 100 * 3 + 4 * 24 + 3 + 1)"
      using is_leap_parts [of 3 24 3 a] by simp
    show ?thesis
      unfolding y using dby lp n century z bd
      by (simp add: toordinal_def ymd2ord_def days_before_month_def days_in_month_def
          DBM_simps DIM_simps)
  next
    case fourth
    with l3 bd have r: "r = 0" by linarith
    with l2 fourth bd have c: "c \<le> 23" by linarith
    have y: "ord2ymd k = \<lparr>year = 400 * a + 100 * b + 4 * c + 3 + 1, month = 12, day = 31\<rparr>"
      using eq fourth by simp
    have dby: "days_before_year (400 * a + 100 * b + 4 * c + 3 + 1) =
          146097 * a + 36524 * b + 1461 * c + 365 * 3"
      by (rule days_before_year_parts) (use bd fourth in simp_all)
    have lp: "is_leap (400 * a + 100 * b + 4 * c + 3 + 1)"
      using is_leap_parts [of b c 3 a] bd fourth c by simp
    show ?thesis
      unfolding y using dby lp n fourth r bd
      by (simp add: toordinal_def ymd2ord_def days_before_month_def days_in_month_def
          DBM_simps DIM_simps)
  next
    case plain
    let ?y = "400 * a + 100 * b + 4 * c + e + 1"
    let ?lp = "e = 3 \<and> (c \<noteq> 24 \<or> b = 3)"
    have ne: "\<not> (e = 4 \<or> b = 4)" using plain by simp
    have yy: "a * 400 + 1 + b * 100 + c * 4 + e = ?y" by simp
    have t: "tail_ok ?y ?lp r (ord2ymd k)"
      unfolding eq if_not_P [OF ne] yy using bd by (intro ord2ymd_tail) simp_all
    have dby: "days_before_year ?y = 146097 * a + 36524 * b + 1461 * c + 365 * e"
      by (rule days_before_year_parts) (use bd plain in simp_all)
    have lp: "is_leap ?y = ?lp"
      by (rule is_leap_parts) (use bd plain in simp_all)
    have y1: "1 \<le> ?y" using bd by simp
    show ?thesis
      using t dby lp n y1 bd
      by (auto simp: tail_ok_def toordinal_def ymd2ord_def days_before_month_def days_in_month_def
          DIM_simps)
  qed
qed

lemma days_before_year_bounds:
  fixes y :: int
  assumes "1 \<le> y" "y \<le> 9999"
  shows "0 \<le> days_before_year y" "days_before_year y \<le> 3669266"
  using assms by (simp_all add: days_before_year_def Let_def)

lemma days_before_year_10000:
  fixes y :: int
  assumes "10000 \<le> y"
  shows "3652059 \<le> days_before_year y"
  using assms by (simp add: days_before_year_def Let_def)

lemma days_before_month_bounds:
  fixes m :: int
  assumes "1 \<le> m" "m \<le> 12"
  shows "0 \<le> days_before_month y m" "days_before_month y m \<le> 335"
  using month_cases [OF assms]
  by (auto simp: days_before_month_def DBM_simps)

lemma days_in_month_bound:
  fixes m :: int
  assumes "1 \<le> m" "m \<le> 12"
  shows "days_in_month y m \<le> 31"
  using month_cases [OF assms]
  by (auto simp: days_in_month_def DIM_simps)

lemma toordinal_bounds:
  assumes "valid_date dt"
  shows "1 \<le> toordinal dt" "toordinal dt \<le> 3669632"
proof -
  from assms have y: "1 \<le> year dt" "year dt \<le> 9999" and m: "1 \<le> month dt" "month dt \<le> 12"
    and d: "1 \<le> day dt" "day dt \<le> days_in_month (year dt) (month dt)"
    by (simp_all add: valid_date_def check_date_fields_def MINYEAR_def MAXYEAR_def)
  from days_before_year_bounds [OF y] days_before_month_bounds [OF m, of "year dt"]
    days_in_month_bound [OF m, of "year dt"] d
  show "1 \<le> toordinal dt" "toordinal dt \<le> 3669632"
    by (simp_all add: toordinal_def ymd2ord_def)
qed

lemma ord2ymd_valid:
  assumes "1 \<le> k" "k \<le> MAXORDINAL"
  shows "valid_date (ord2ymd k)" "toordinal (ord2ymd k) = k"
proof -
  from ord2ymd_correct [OF assms(1)]
  have c: "toordinal (ord2ymd k) = k" "1 \<le> year (ord2ymd k)"
         "1 \<le> month (ord2ymd k)" "month (ord2ymd k) \<le> 12" "1 \<le> day (ord2ymd k)"
         "day (ord2ymd k) \<le> days_in_month (year (ord2ymd k)) (month (ord2ymd k))"
         "days_before_year (year (ord2ymd k)) < k"
    by simp_all
  have "year (ord2ymd k) \<le> 9999"
  proof (rule ccontr)
    assume "\<not> year (ord2ymd k) \<le> 9999"
    then have "3652059 \<le> days_before_year (year (ord2ymd k))"
      by (intro days_before_year_10000) simp
    with c(7) assms(2) show False by (simp add: MAXORDINAL_def)
  qed
  with c show "valid_date (ord2ymd k)"
    by (simp add: valid_date_def check_date_fields_def MINYEAR_def MAXYEAR_def)
  show "toordinal (ord2ymd k) = k" by (rule c(1))
qed

lemma strptime_valid: "strptime x = Inr dt \<Longrightarrow> valid_date dt"
  by (auto simp: strptime_def Let_def valid_date_def split: list.splits if_splits prod.splits)

lemma date_add_eq:
  "date_add dt n =
     (if 0 < toordinal dt + n \<and> toordinal dt + n \<le> MAXORDINAL
      then Inr (ord2ymd (toordinal dt + n)) else Inl OverflowError)"
  by (simp add: date_add_def Let_def)

lemma next_cycle_date_eq:
  assumes "strptime x = Inr dt"
  shows "next_cycle_date x n =
     (if 0 < toordinal dt + n \<and> toordinal dt + n \<le> MAXORDINAL
      then Inr (ord2ymd (toordinal dt + n)) else Inl OverflowError)"
proof -
  from assms have "valid_date dt" by (rule strptime_valid)
  from toordinal_bounds [OF this] show ?thesis
    using assms
    by (auto simp: next_cycle_date_def timedelta_def date_add_eq MAXORDINAL_def)
qed

subsection \<open>The order of printed dates\<close>

text \<open>
  \<open>isoformat\<close> prints a valid date in ten characters, year, month and day in fixed
  width, so that the order of the strings is the order of the dates: comparing two printed
  dates as strings gives the same answer as comparing their ordinals.
\<close>

lemma digit_char_code:
  "n < 10 \<Longrightarrow> of_char (digit_char n) = (48 + n :: nat)"
proof -
  assume "n < 10"
  then have "n \<in> set [0, 1, 2, 3, 4, 5, 6, 7, 8, 9]"
    by (simp only: set_simps insert_iff empty_iff) arith
  then show ?thesis by (auto simp: digit_char_def)
qed

lemma digit_char_less: "a < 10 \<Longrightarrow> b < 10 \<Longrightarrow> (digit_char a < digit_char b) = (a < b)"
  by (simp add: less_char_def digit_char_code)

lemma digit_char_eq: "a < 10 \<Longrightarrow> b < 10 \<Longrightarrow> (digit_char a = digit_char b) = (a = b)"
proof
  assume "a < 10" "b < 10" "digit_char a = digit_char b"
  then have "(of_char (digit_char a) :: nat) = of_char (digit_char b)" by simp
  then show "a = b" using \<open>a < 10\<close> \<open>b < 10\<close> by (simp add: digit_char_code)
qed simp

lemma length_digs [simp]: "length (digs w n) = w"
  by (induction w arbitrary: n) simp_all

lemma lex_append_less:
  fixes xs ys :: "'a::linorder list"
  shows "length xs = length ys \<Longrightarrow> (xs @ us < ys @ vs) = (xs < ys \<or> xs = ys \<and> us < vs)"
  by (induction xs ys rule: list_induct2) auto

lemma lex_append_le:
  fixes xs ys :: "'a::linorder list"
  shows "length xs = length ys \<Longrightarrow> (xs @ us \<le> ys @ vs) = (xs < ys \<or> xs = ys \<and> us \<le> vs)"
  by (induction xs ys rule: list_induct2) auto

lemma lex_parts:
  fixes q r q' r' :: nat
  assumes "r < 10" "r' < 10"
  shows "(10 * q + r < 10 * q' + r') = (q < q' \<or> q = q' \<and> r < r')"
    and "(10 * q + r = 10 * q' + r') = (q = q' \<and> r = r')"
proof -
  show "(10 * q + r < 10 * q' + r') = (q < q' \<or> q = q' \<and> r < r')"
    using assms by auto
  have "q = q' \<and> r = r'" if "10 * q + r = 10 * q' + r'"
  proof -
    have "q = (10 * q + r) div 10" using assms by simp
    also have "\<dots> = (10 * q' + r') div 10" using that by simp
    also have "\<dots> = q'" using assms by simp
    finally have "q = q'" .
    with that show ?thesis by simp
  qed
  then show "(10 * q + r = 10 * q' + r') = (q = q' \<and> r = r')" by auto
qed

lemma divmod_lex:
  fixes n n' :: nat
  shows "(n < n') = (n div 10 < n' div 10 \<or> n div 10 = n' div 10 \<and> n mod 10 < n' mod 10)"
proof -
  have "(n < n') = (10 * (n div 10) + n mod 10 < 10 * (n' div 10) + n' mod 10)" by simp
  also have "\<dots> = (n div 10 < n' div 10 \<or> n div 10 = n' div 10 \<and> n mod 10 < n' mod 10)"
    by (rule lex_parts) simp_all
  finally show ?thesis .
qed

lemma divmod_eq:
  fixes n n' :: nat
  shows "(n = n') = (n div 10 = n' div 10 \<and> n mod 10 = n' mod 10)"
proof -
  have "(n = n') = (10 * (n div 10) + n mod 10 = 10 * (n' div 10) + n' mod 10)" by simp
  also have "\<dots> = (n div 10 = n' div 10 \<and> n mod 10 = n' mod 10)"
    by (rule lex_parts) simp_all
  finally show ?thesis .
qed

lemma digs_inj: "n < 10 ^ w \<Longrightarrow> n' < 10 ^ w \<Longrightarrow> (digs w n = digs w n') = (n = n')"
proof (induction w arbitrary: n n')
  case 0
  then show ?case by simp
next
  case (Suc w)
  from Suc.prems have q: "n div 10 < 10 ^ w" "n' div 10 < 10 ^ w"
    by (simp_all add: less_mult_imp_div_less mult.commute)
  have "(digs (Suc w) n = digs (Suc w) n') =
        (digs w (n div 10) = digs w (n' div 10) \<and> n mod 10 = n' mod 10)"
    by (simp add: digit_char_eq)
  also have "\<dots> = (n div 10 = n' div 10 \<and> n mod 10 = n' mod 10)"
    by (simp add: Suc.IH [OF q])
  also have "\<dots> = (n = n')" by (rule divmod_eq [symmetric])
  finally show ?case .
qed

lemma digs_less: "n < 10 ^ w \<Longrightarrow> n' < 10 ^ w \<Longrightarrow> (digs w n < digs w n') = (n < n')"
proof (induction w arbitrary: n n')
  case 0
  then show ?case by simp
next
  case (Suc w)
  from Suc.prems have q: "n div 10 < 10 ^ w" "n' div 10 < 10 ^ w"
    by (simp_all add: less_mult_imp_div_less mult.commute)
  have e: "(digs w (n div 10) = digs w (n' div 10)) = (n div 10 = n' div 10)"
    using q by (rule digs_inj)
  have "(digs (Suc w) n < digs (Suc w) n') =
        (digs w (n div 10) < digs w (n' div 10) \<or>
         digs w (n div 10) = digs w (n' div 10) \<and> digit_char (n mod 10) < digit_char (n' mod 10))"
    by (simp add: lex_append_less)
  also have "\<dots> = (n div 10 < n' div 10 \<or> n div 10 = n' div 10 \<and> n mod 10 < n' mod 10)"
    by (simp add: Suc.IH [OF q] e digit_char_less)
  also have "\<dots> = (n < n')" by (rule divmod_lex [symmetric])
  finally show ?case .
qed

lemma digs_zero: "digs w 0 = replicate w (CHR ''0'')"
  by (induction w) (simp_all add: digit_char_def replicate_append_same)

lemma length_str_nat: "n < 10 ^ Suc w \<Longrightarrow> length (str_nat n) \<le> Suc w"
proof (induction w arbitrary: n)
  case 0
  then show ?case by (subst str_nat.simps) simp
next
  case (Suc w)
  show ?case
  proof (cases "n < 10")
    case True
    then show ?thesis by (subst str_nat.simps) simp
  next
    case False
    from Suc.prems have "n div 10 < 10 ^ Suc w"
      by (simp add: less_mult_imp_div_less mult.commute)
    from Suc.IH [OF this] False show ?thesis by (subst str_nat.simps) simp
  qed
qed

lemma pad_str_nat:
  "n < 10 ^ Suc w \<Longrightarrow> replicate (Suc w - length (str_nat n)) (CHR ''0'') @ str_nat n = digs (Suc w) n"
proof (induction w arbitrary: n)
  case 0
  then show ?case by (subst (1 2) str_nat.simps) simp
next
  case (Suc w)
  show ?case
  proof (cases "n < 10")
    case True
    then have s: "str_nat n = [digit_char n]" by (subst str_nat.simps) simp
    from True have "digs (Suc (Suc w)) n = digs (Suc w) 0 @ [digit_char n]" by simp
    then show ?thesis by (simp only: s digs_zero) simp
  next
    case False
    from Suc.prems have q: "n div 10 < 10 ^ Suc w"
      by (simp add: less_mult_imp_div_less mult.commute)
    from False have s: "str_nat n = str_nat (n div 10) @ [digit_char (n mod 10)]"
      by (subst str_nat.simps) simp
    from length_str_nat [OF q]
    have "Suc (Suc w) - length (str_nat n) = Suc w - length (str_nat (n div 10))"
      by (simp add: s)
    then show ?thesis using Suc.IH [OF q] by (simp add: s)
  qed
qed

lemma zero_pad_digs:
  assumes "0 \<le> n" "nat n < 10 ^ Suc w"
  shows "zero_pad (Suc w) n = digs (Suc w) (nat n)"
  using pad_str_nat [OF assms(2)] by (simp add: zero_pad_def Let_def)

lemma zero_pad_4: "0 \<le> n \<Longrightarrow> n < 10000 \<Longrightarrow> zero_pad 4 n = digs 4 (nat n)"
proof -
  assume a: "0 \<le> n" "n < 10000"
  have e: "(4::nat) = Suc 3" by simp
  have "nat n < 10 ^ Suc 3" using a by simp
  from zero_pad_digs [OF a(1) this] show ?thesis by (simp only: e)
qed

lemma zero_pad_2: "0 \<le> n \<Longrightarrow> n < 100 \<Longrightarrow> zero_pad 2 n = digs 2 (nat n)"
proof -
  assume a: "0 \<le> n" "n < 100"
  have e: "(2::nat) = Suc 1" by simp
  have "nat n < 10 ^ Suc 1" using a by simp
  from zero_pad_digs [OF a(1) this] show ?thesis by (simp only: e)
qed

lemma div_step:
  fixes y d :: int
  assumes d: "0 < d"
  shows "y div d = (y - 1) div d + (if y mod d = 0 then 1 else 0)"
proof -
  define q where "q = y div d"
  define r where "r = y mod d"
  have y: "y = d * q + r" and r: "0 \<le> r" "r < d"
    using d by (simp_all add: q_def r_def)
  show ?thesis
  proof (cases "r = 0")
    case True
    have "(y - 1) div d = q - 1"
      by (rule div_unique_int) (use y True d in \<open>simp_all add: algebra_simps\<close>)
    with True show ?thesis by (simp add: q_def [symmetric] r_def [symmetric])
  next
    case False
    have "(y - 1) div d = q"
      by (rule div_unique_int) (use y False r in simp_all)
    with False show ?thesis by (simp add: q_def [symmetric] r_def [symmetric])
  qed
qed

lemma div_slow:
  fixes z z' :: int
  assumes "z \<le> z'"
  shows "z' div 100 \<le> z div 100 + (z' - z)"
proof -
  have "z' div 100 \<le> (z + 100 * (z' - z)) div 100"
    using assms by (intro zdiv_mono1) simp_all
  also have "\<dots> = z div 100 + (z' - z)" by simp
  finally show ?thesis .
qed

lemma days_before_year_mono:
  fixes y y' :: int
  assumes "y \<le> y'"
  shows "days_before_year y \<le> days_before_year y'"
proof -
  from assms have z: "y - 1 \<le> y' - 1" by simp
  have "(y - 1) div 4 \<le> (y' - 1) div 4" "(y - 1) div 400 \<le> (y' - 1) div 400"
    using z by (simp_all add: zdiv_mono1)
  with div_slow [OF z] assms show ?thesis
    by (simp add: days_before_year_def Let_def)
qed

lemma leap_indicator:
  fixes y :: int
  shows "(if is_leap y then 1 else 0) =
     (if y mod 4 = 0 then 1 else 0) - (if y mod 100 = 0 then 1 else 0) + (if y mod 400 = 0 then 1 else (0::int))"
proof -
  define p4 where "p4 \<longleftrightarrow> y mod 4 = 0"
  define p100 where "p100 \<longleftrightarrow> y mod 100 = 0"
  define p400 where "p400 \<longleftrightarrow> y mod 400 = 0"
  have a: "p400 \<Longrightarrow> p100" unfolding p400_def p100_def by auto
  have b: "p100 \<Longrightarrow> p4" unfolding p100_def p4_def by auto
  have l: "is_leap y = (p4 \<and> (\<not> p100 \<or> p400))"
    by (simp only: is_leap_def p4_def p100_def p400_def)
  have "(if is_leap y then 1 else 0) =
     (if p4 then 1 else 0) - (if p100 then 1 else 0) + (if p400 then 1 else (0::int))"
    unfolding l using a b by (cases p4; cases p100; cases p400) simp_all
  then show ?thesis by (simp only: p4_def p100_def p400_def)
qed

lemma days_before_year_Suc:
  fixes y :: int
  shows "days_before_year (y + 1) = days_before_year y + 365 + (if is_leap y then 1 else 0)"
proof -
  define A where "A = (y - 1) div 4"
  define B where "B = (y - 1) div 100"
  define C where "C = (y - 1) div 400"
  define i4 :: int where "i4 = (if y mod 4 = 0 then 1 else 0)"
  define i100 :: int where "i100 = (if y mod 100 = 0 then 1 else 0)"
  define i400 :: int where "i400 = (if y mod 400 = 0 then 1 else 0)"
  have 4: "y div 4 = A + i4"
    unfolding A_def i4_def by (rule div_step) simp
  have 100: "y div 100 = B + i100"
    unfolding B_def i100_def by (rule div_step) simp
  have 400: "y div 400 = C + i400"
    unfolding C_def i400_def by (rule div_step) simp
  have l: "(if is_leap y then 1 else 0) = i4 - i100 + i400"
    unfolding i4_def i100_def i400_def by (rule leap_indicator)
  have 1: "days_before_year (y + 1) = y * 365 + (A + i4) - (B + i100) + (C + i400)"
    by (simp only: days_before_year_def Let_def add_diff_cancel_right' 4 100 400)
  have 2: "days_before_year y = (y - 1) * 365 + A - B + C"
    by (simp only: days_before_year_def Let_def A_def B_def C_def)
  show ?thesis
    unfolding 1 2 l by (simp add: algebra_simps)
qed

lemma month_end:
  fixes m :: int
  assumes "1 \<le> m" "m \<le> 12"
  shows "days_before_month y m + days_in_month y m =
         (if m = 12 then 365 + (if is_leap y then 1 else 0) else days_before_month y (m + 1))"
  using month_cases [OF assms]
  by (elim disjE) (simp_all add: days_before_month_def days_in_month_def DBM_simps DIM_simps)

lemma days_in_month_pos:
  fixes m :: int
  assumes "1 \<le> m" "m \<le> 12"
  shows "28 \<le> days_in_month y m"
  using month_cases [OF assms]
  by (elim disjE) (simp_all add: days_in_month_def DIM_simps)

lemma days_before_month_later:
  fixes m :: int
  assumes "1 \<le> m"
  shows "m + 1 + int k \<le> 12 \<Longrightarrow>
         days_before_month y m + days_in_month y m \<le> days_before_month y (m + 1 + int k)"
proof (induction k)
  case 0
  with assms month_end [of m y] show ?case by simp
next
  case (Suc k)
  let ?j = "m + 1 + int k"
  from Suc.prems assms have j: "1 \<le> ?j" "?j \<le> 12" "?j \<noteq> 12" by simp_all
  from month_end [OF j(1,2), of y] j(3)
  have "days_before_month y (?j + 1) = days_before_month y ?j + days_in_month y ?j" by simp
  moreover have "28 \<le> days_in_month y ?j" using j by (intro days_in_month_pos)
  moreover have "days_before_month y m + days_in_month y m \<le> days_before_month y ?j"
    using Suc by simp
  moreover have "m + 1 + int (Suc k) = ?j + 1" by simp
  ultimately show ?case by (simp only:)
qed

lemma month_order:
  fixes m m' :: int
  assumes "1 \<le> m" "m < m'" "m' \<le> 12"
  shows "days_before_month y m + days_in_month y m \<le> days_before_month y m'"
proof -
  have "m' = m + 1 + int (nat (m' - m - 1))" using assms by simp
  then show ?thesis
    using days_before_month_later [OF assms(1), of "nat (m' - m - 1)" y] assms by simp
qed

lemma year_length:
  fixes m :: int
  assumes "1 \<le> m" "m \<le> 12"
  shows "days_before_month y m + days_in_month y m \<le> 365 + (if is_leap y then 1 else 0)"
proof (cases "m = 12")
  case True
  then show ?thesis using month_end [OF assms, of y] by simp
next
  case False
  with assms have "m < 12" by simp
  from month_order [OF assms(1) this, of y] month_end [of 12 y] days_in_month_pos [of 12 y]
  show ?thesis by simp
qed

lemma valid_dateD:
  assumes "valid_date a"
  shows "1 \<le> year a" "year a \<le> 9999" "1 \<le> month a" "month a \<le> 12" "1 \<le> day a"
    "day a \<le> days_in_month (year a) (month a)" "day a \<le> 31"
proof -
  from assms show 1: "1 \<le> year a" "year a \<le> 9999" "1 \<le> month a" "month a \<le> 12" "1 \<le> day a"
    "day a \<le> days_in_month (year a) (month a)"
    by (simp_all add: valid_date_def check_date_fields_def MINYEAR_def MAXYEAR_def)
  from days_in_month_bound [OF 1(3,4), of "year a"] 1(6) show "day a \<le> 31" by simp
qed

lemma toordinal_less:
  assumes a: "valid_date a" and b: "valid_date b" and l: "date_less a b"
  shows "toordinal a < toordinal b"
proof -
  note A = valid_dateD [OF a] and B = valid_dateD [OF b]
  from l consider (y) "year a < year b"
    | (m) "year a = year b" "month a < month b"
    | (d) "year a = year b" "month a = month b" "day a < day b"
    by (auto simp: date_less_def)
  then show ?thesis
  proof cases
    case y
    have "toordinal a \<le> days_before_year (year a) + (days_before_month (year a) (month a)
        + days_in_month (year a) (month a))"
      using A(6) by (simp add: toordinal_def ymd2ord_def)
    also have "\<dots> \<le> days_before_year (year a) + (365 + (if is_leap (year a) then 1 else 0))"
      using year_length [OF A(3,4), of "year a"] by simp
    also have "\<dots> = days_before_year (year a + 1)"
      by (simp add: days_before_year_Suc)
    also have "\<dots> \<le> days_before_year (year b)"
      using y by (intro days_before_year_mono) simp
    also have "\<dots> < toordinal b"
      using days_before_month_bounds(1) [OF B(3,4), of "year b"] B(5)
      by (simp add: toordinal_def ymd2ord_def)
    finally show ?thesis .
  next
    case m
    from month_order [OF A(3) m(2) B(4), of "year a"] A(6) B(5) m(1)
    show ?thesis by (simp add: toordinal_def ymd2ord_def)
  next
    case d
    then show ?thesis by (simp add: toordinal_def ymd2ord_def)
  qed
qed

lemma isoformat_digs:
  assumes "valid_date a"
  shows "isoformat a = digs 4 (nat (year a)) @ ''-'' @ digs 2 (nat (month a)) @ ''-'' @ digs 2 (nat (day a))"
proof -
  note A = valid_dateD [OF assms]
  have "zero_pad 4 (year a) = digs 4 (nat (year a))" using A by (intro zero_pad_4) simp_all
  moreover have "zero_pad 2 (month a) = digs 2 (nat (month a))" using A by (intro zero_pad_2) simp_all
  moreover have "zero_pad 2 (day a) = digs 2 (nat (day a))" using A by (intro zero_pad_2) simp_all
  ultimately show ?thesis by (simp only: isoformat_def)
qed

lemma isoformat_less:
  assumes a: "valid_date a" and b: "valid_date b"
  shows "(isoformat a < isoformat b) = date_less a b"
proof -
  note A = valid_dateD [OF a] and B = valid_dateD [OF b]
  have y: "(digs 4 (nat (year a)) < digs 4 (nat (year b))) = (year a < year b)"
    "(digs 4 (nat (year a)) = digs 4 (nat (year b))) = (year a = year b)"
    using A B by (simp_all add: digs_less digs_inj eq_nat_nat_iff)
  have m: "(digs 2 (nat (month a)) < digs 2 (nat (month b))) = (month a < month b)"
    "(digs 2 (nat (month a)) = digs 2 (nat (month b))) = (month a = month b)"
    using A B by (simp_all add: digs_less digs_inj eq_nat_nat_iff)
  have d: "(digs 2 (nat (day a)) < digs 2 (nat (day b))) = (day a < day b)"
    using A B by (simp add: digs_less)
  have "(isoformat a < isoformat b) =
     (digs 4 (nat (year a)) < digs 4 (nat (year b)) \<or>
      digs 4 (nat (year a)) = digs 4 (nat (year b)) \<and>
      (digs 2 (nat (month a)) < digs 2 (nat (month b)) \<or>
       digs 2 (nat (month a)) = digs 2 (nat (month b)) \<and>
       digs 2 (nat (day a)) < digs 2 (nat (day b))))"
    by (simp add: isoformat_digs [OF a] isoformat_digs [OF b] lex_append_less)
  then show ?thesis by (simp only: y m d date_less_def)
qed

lemma isoformat_eq:
  assumes a: "valid_date a" and b: "valid_date b" and e: "isoformat a = isoformat b"
  shows "toordinal a = toordinal b"
proof -
  note A = valid_dateD [OF a] and B = valid_dateD [OF b]
  from e have "digs 4 (nat (year a)) = digs 4 (nat (year b)) \<and>
      digs 2 (nat (month a)) = digs 2 (nat (month b)) \<and>
      digs 2 (nat (day a)) = digs 2 (nat (day b))"
    by (simp add: isoformat_digs [OF a] isoformat_digs [OF b])
  then have "year a = year b \<and> month a = month b \<and> day a = day b"
    using A B by (simp add: digs_inj eq_nat_nat_iff)
  then show ?thesis by (simp add: toordinal_def)
qed

lemma isoformat_le:
  assumes a: "valid_date a" and b: "valid_date b"
  shows "(isoformat a \<le> isoformat b) = (toordinal a \<le> toordinal b)"
proof
  assume "isoformat a \<le> isoformat b"
  then consider "isoformat a < isoformat b" | "isoformat a = isoformat b" by (auto simp: le_less)
  then show "toordinal a \<le> toordinal b"
  proof cases
    case 1
    then have "date_less a b" by (simp add: isoformat_less [OF a b])
    from toordinal_less [OF a b this] show ?thesis by simp
  next
    case 2
    from isoformat_eq [OF a b this] show ?thesis by simp
  qed
next
  assume t: "toordinal a \<le> toordinal b"
  show "isoformat a \<le> isoformat b"
  proof (rule ccontr)
    assume "\<not> isoformat a \<le> isoformat b"
    then have "isoformat b < isoformat a" by simp
    then have "date_less b a" by (simp add: isoformat_less [OF b a])
    from toordinal_less [OF b a this] t show False by simp
  qed
qed

subsection \<open>Auxiliary facts\<close>

lemma update_fresh: "map_of d k = None \<Longrightarrow> AList.update k v d = d @ [(k, v)]"
  by (induction d) (auto split: if_splits)

lemma strptime_raises: "strptime x = Inl e \<Longrightarrow> e = ValueError"
  by (auto simp: strptime_def Let_def split: list.splits if_splits prod.splits)

lemma strptime_2024_13_40: "strptime ''2024-13-40'' = Inl ValueError"
  by code_simp

lemma strptime_2024_02_30: "strptime ''2024-02-30'' = Inl ValueError"
  by code_simp

lemma strptime_2024_01_01: "strptime ''2024-01-01'' = Inr \<lparr>year = 2024, month = 1, day = 1\<rparr>"
  by code_simp

lemma register_user_fresh:
  "map_of (data s) u = None \<Longrightarrow>
   register_user s u =
     (Inr (''User '' @ quoted u @ '' registered successfully!''),
      \<lparr>data = data s @ [(u, \<lparr>last_cycle_date = None, cycle_length = 28, symptoms = [], reminders = []\<rparr>)],
       DATA_FILE = Some (Document (json_dump
         (data s @ [(u, \<lparr>last_cycle_date = None, cycle_length = 28, symptoms = [], reminders = []\<rparr>)])))\<rparr>)"
  by (simp add: register_user_def Let_def save_data_def update_fresh)

lemma register_user_dup:
  "map_of (data s) u \<noteq> None \<Longrightarrow> register_user s u = (Inr (DuplicateUser u), s)"
  by (simp add: register_user_def)

lemma set_cycle_details_bad_date:
  "map_of (data s) u = Some r \<Longrightarrow> isl (strptime d) \<Longrightarrow>
   set_cycle_details s u d n = (Inr InvalidDate, s)"
proof -
  assume r: "map_of (data s) u = Some r" and "isl (strptime d)"
  then obtain e where e: "strptime d = Inl e" by (auto simp: isl_def)
  then have "strptime d = Inl ValueError" using strptime_raises by blast
  then show ?thesis using r by (simp add: set_cycle_details_def)
qed

lemma set_cycle_details_good_date:
  "map_of (data s) u = Some r \<Longrightarrow> strptime d = Inr dt \<Longrightarrow>
   set_cycle_details s u d n =
     (Inr (''Cycle details updated for '' @ quoted u @ ''.''),
      \<lparr>data = AList.update u (r\<lparr>last_cycle_date := Some d, cycle_length := n\<rparr>) (data s),
       DATA_FILE = Some (Document (json_dump
         (AList.update u (r\<lparr>last_cycle_date := Some d, cycle_length := n\<rparr>) (data s))))\<rparr>)"
  by (simp add: set_cycle_details_def Let_def save_data_def)

lemma add_symptom_known:
  "map_of (data s) u = Some r \<Longrightarrow>
   add_symptom today s u x =
     (Inr (''Symptom '' @ quoted x @ '' logged for '' @ quoted u @ ''.''),
      \<lparr>data = AList.update u (r\<lparr>symptoms := symptoms r @ [\<lparr>symptom = x, s_date = isoformat today\<rparr>]\<rparr>) (data s),
       DATA_FILE = Some (Document (json_dump
         (AList.update u (r\<lparr>symptoms := symptoms r @ [\<lparr>symptom = x, s_date = isoformat today\<rparr>]\<rparr>) (data s))))\<rparr>)"
  by (simp add: add_symptom_def Let_def save_data_def)

text \<open>
  What \<open>add_reminder\<close> and \<open>set_cycle_details\<close> do to the tracker: nothing, or one
  update of the record of \<open>u\<close> followed by \<open>save_data\<close>.
\<close>

lemma add_reminder_cases:
  "snd (add_reminder s u x k) = s \<or>
   (\<exists>r e. map_of (data s) u = Some r \<and>
      snd (add_reminder s u x k) =
        s\<lparr>data := AList.update u (r\<lparr>reminders := reminders r @ [\<lparr>reminder = x, r_date = e\<rparr>]\<rparr>) (data s),
          DATA_FILE := Some (Document (json_dump
           (AList.update u (r\<lparr>reminders := reminders r @ [\<lparr>reminder = x, r_date = e\<rparr>]\<rparr>) (data s))))\<rparr>)"
  by (auto simp: add_reminder_def Let_def save_data_def split: option.splits sum.splits)

lemma set_cycle_details_cases:
  "snd (set_cycle_details s u d n) = s \<or>
   (\<exists>r. map_of (data s) u = Some r \<and> \<not> isl (strptime d) \<and>
      snd (set_cycle_details s u d n) =
        s\<lparr>data := AList.update u (r\<lparr>last_cycle_date := Some d, cycle_length := n\<rparr>) (data s),
          DATA_FILE := Some (Document (json_dump
           (AList.update u (r\<lparr>last_cycle_date := Some d, cycle_length := n\<rparr>) (data s))))\<rparr>)"
  by (auto simp: set_cycle_details_def Let_def save_data_def split: option.splits sum.splits py_exn.splits)

lemma view_reminders_state [simp]: "snd (view_reminders s u) = s"
  by (simp add: view_reminders_def split: option.splits)

lemma view_symptoms_state [simp]: "snd (view_symptoms s u) = s"
  by (simp add: view_symptoms_def split: option.splits)

lemma predict_next_cycle_state [simp]: "snd (predict_next_cycle s u) = s"
  by (simp add: predict_next_cycle_def split: option.splits sum.splits)

subsection \<open>Registration\<close>

text \<open>
  C2. \<open>register_user\<close> on a username that is already a key of the store returns the
  \<open>DuplicateUser\<close> message and the tracker as it was (store and file), so the number of
  users is unchanged. On a new username it puts a record with no last cycle date, cycle
  length 28 and no symptoms or reminders at the end of the store, writes the new store to
  the file, and returns the confirmation, which is not the \<open>DuplicateUser\<close> message.
\<close>

theorem register_user_spec:
  "(map_of (data s) u \<noteq> None \<longrightarrow>
      register_user s u = (Inr (DuplicateUser u), s) \<and>
      length (data (snd (register_user s u))) = length (data s))
   \<and> (map_of (data s) u = None \<longrightarrow>
      fst (register_user s u) = Inr (''User '' @ quoted u @ '' registered successfully!'') \<and>
      data (snd (register_user s u)) =
        data s @ [(u, \<lparr>last_cycle_date = None, cycle_length = 28, symptoms = [], reminders = []\<rparr>)] \<and>
      map_of (data (snd (register_user s u))) u =
        Some \<lparr>last_cycle_date = None, cycle_length = 28, symptoms = [], reminders = []\<rparr> \<and>
      DATA_FILE (snd (register_user s u)) =
        Some (Document (json_dump (data (snd (register_user s u))))))
   \<and> DuplicateUser u \<noteq> ''User '' @ quoted u @ '' registered successfully!''"
  by (auto simp: register_user_fresh register_user_dup DuplicateUser_def map_add_def)

theorem register_user_spec_witness:
  "register_user init ''alice'' =
     (Inr (''User '' @ quoted ''alice'' @ '' registered successfully!''), tracker_of [(''alice'', alice0)])
   \<and> register_user (tracker_of [(''alice'', alice0)]) ''alice'' =
     (Inr (DuplicateUser ''alice''), tracker_of [(''alice'', alice0)])
   \<and> length (data (snd (register_user (tracker_of [(''alice'', alice0)]) ''alice''))) = 1"
proof -
  let ?s1 = "snd (register_user init ''alice'')"
  have a: "map_of (data init) ''alice'' = None" by (simp add: init_def)
  from register_user_spec [of init "''alice''"] a
  have 1: "fst (register_user init ''alice'') = Inr (''User '' @ quoted ''alice'' @ '' registered successfully!'')"
    and 2: "data ?s1 = data init @ [(''alice'', \<lparr>last_cycle_date = None, cycle_length = 28, symptoms = [], reminders = []\<rparr>)]"
    and 3: "DATA_FILE ?s1 = Some (Document (json_dump (data ?s1)))"
    by blast+
  have 4: "?s1 = tracker_of [(''alice'', alice0)]"
    using 2 3 by (cases ?s1) (simp add: init_def tracker_of_def alice0_def)
  have b: "map_of (data (tracker_of [(''alice'', alice0)])) ''alice'' \<noteq> None"
    by (simp add: tracker_of_def)
  from register_user_spec [of "tracker_of [(''alice'', alice0)]" "''alice''"] b
  have 5: "register_user (tracker_of [(''alice'', alice0)]) ''alice'' =
      (Inr (DuplicateUser ''alice''), tracker_of [(''alice'', alice0)])"
    and 6: "length (data (snd (register_user (tracker_of [(''alice'', alice0)]) ''alice''))) =
      length (data (tracker_of [(''alice'', alice0)]))"
    by blast+
  show ?thesis using 1 4 5 6 by (simp add: prod_eq_iff tracker_of_def)
qed

text \<open>
  C9. \<open>register_user\<close> does not look at the username: the empty string, when it is not
  a key of the store yet, gets a default record at the end of the store, the store is
  written to the file, and the confirmation is returned, as for any other new username.
\<close>

theorem register_user_empty_name:
  "map_of (data s) [] = None \<Longrightarrow>
   register_user s [] =
     (Inr (''User '' @ quoted [] @ '' registered successfully!''),
      \<lparr>data = data s @ [([], \<lparr>last_cycle_date = None, cycle_length = 28, symptoms = [], reminders = []\<rparr>)],
       DATA_FILE = Some (Document (json_dump
         (data s @ [([], \<lparr>last_cycle_date = None, cycle_length = 28, symptoms = [], reminders = []\<rparr>)])))\<rparr>)"
  by (rule register_user_fresh)

theorem register_user_empty_name_witness:
  "register_user (tracker_of [(''alice'', alice1)]) [] =
     (Inr (''User '' @ [CHR 0x27, CHR 0x27] @ '' registered successfully!''),
      tracker_of [(''alice'', alice1), ([], alice0)])"
proof -
  have "map_of (data (tracker_of [(''alice'', alice1)])) [] = None"
    by (simp add: tracker_of_def)
  from register_user_empty_name [OF this] show ?thesis
    by (simp add: tracker_of_def alice0_def quoted_def)
qed

subsection \<open>Rejected calls\<close>

text \<open>
  C3. For a registered username, \<open>set_cycle_details\<close> with a date string that
  \<open>strptime\<close> does not accept (no match of the format, or a match that is not a calendar
  date) returns the \<open>InvalidDate\<close> message and the tracker as it was: the record keeps
  its last cycle date and cycle length, and the file is not written.
\<close>

theorem set_cycle_details_invalid_date:
  "map_of (data s) u = Some r \<Longrightarrow> isl (strptime d) \<Longrightarrow>
   set_cycle_details s u d n = (Inr InvalidDate, s) \<and>
   map_of (data (snd (set_cycle_details s u d n))) u = Some r \<and>
   DATA_FILE (snd (set_cycle_details s u d n)) = DATA_FILE s"
  by (simp add: set_cycle_details_bad_date)

theorem set_cycle_details_invalid_date_witness:
  "set_cycle_details (tracker_of [(''alice'', alice1)]) ''alice'' ''2024-13-40'' 30 =
     (Inr InvalidDate, tracker_of [(''alice'', alice1)]) \<and>
   set_cycle_details (tracker_of [(''alice'', alice1)]) ''alice'' ''2024-02-30'' 30 =
     (Inr InvalidDate, tracker_of [(''alice'', alice1)])"
proof -
  have r: "map_of (data (tracker_of [(''alice'', alice1)])) ''alice'' = Some alice1"
    by (simp add: tracker_of_def)
  have a: "isl (strptime ''2024-13-40'')" by (simp add: strptime_2024_13_40)
  have b: "isl (strptime ''2024-02-30'')" by (simp add: strptime_2024_02_30)
  show ?thesis
    using set_cycle_details_invalid_date [OF r a, of 30]
          set_cycle_details_invalid_date [OF r b, of 30]
    by simp
qed

text \<open>
  C7. Each of the six methods other than \<open>register_user\<close>, called with a username that
  is not a key of the store, returns the \<open>UserNotFound\<close> message and the tracker as it
  was: the store is unchanged and the file is not written.
\<close>

theorem unknown_user_rejected:
  "map_of (data s) u = None \<Longrightarrow>
   set_cycle_details s u d n = (Inr UserNotFound, s) \<and>
   add_symptom today s u x = (Inr UserNotFound, s) \<and>
   add_reminder s u y k = (Inr UserNotFound, s) \<and>
   view_reminders s u = (Inr UserNotFound, s) \<and>
   predict_next_cycle s u = (Inr UserNotFound, s) \<and>
   view_symptoms s u = (Inr UserNotFound, s)"
  by (simp add: set_cycle_details_def add_symptom_def add_reminder_def view_reminders_def
      predict_next_cycle_def view_symptoms_def)

theorem unknown_user_rejected_witness:
  "set_cycle_details (tracker_of [(''alice'', alice1)]) ''bob'' ''2024-01-01'' 28 =
     (Inr UserNotFound, tracker_of [(''alice'', alice1)]) \<and>
   add_symptom \<lparr>year = 2024, month = 3, day = 9\<rparr> (tracker_of [(''alice'', alice1)]) ''bob'' ''cramps'' =
     (Inr UserNotFound, tracker_of [(''alice'', alice1)]) \<and>
   add_reminder (tracker_of [(''alice'', alice1)]) ''bob'' ''Buy supplies'' 5 =
     (Inr UserNotFound, tracker_of [(''alice'', alice1)]) \<and>
   view_reminders (tracker_of [(''alice'', alice1)]) ''bob'' =
     (Inr UserNotFound, tracker_of [(''alice'', alice1)]) \<and>
   predict_next_cycle (tracker_of [(''alice'', alice1)]) ''bob'' =
     (Inr UserNotFound, tracker_of [(''alice'', alice1)]) \<and>
   view_symptoms (tracker_of [(''alice'', alice1)]) ''bob'' =
     (Inr UserNotFound, tracker_of [(''alice'', alice1)])"
proof -
  have "map_of (data (tracker_of [(''alice'', alice1)])) ''bob'' = None"
    by (simp add: tracker_of_def)
  from unknown_user_rejected [OF this] show ?thesis .
qed

subsection \<open>Other users\<close>

text \<open>
  C10. A call for username \<open>u\<close> leaves the record of every other username as it was:
  \<open>register_user\<close>, \<open>set_cycle_details\<close>, \<open>add_symptom\<close> and \<open>add_reminder\<close> change
  at most the record keyed by \<open>u\<close>, and \<open>view_reminders\<close>, \<open>predict_next_cycle\<close> and
  \<open>view_symptoms\<close> return the tracker unchanged.
\<close>

theorem other_users_untouched:
  "v \<noteq> u \<Longrightarrow>
   map_of (data (snd (register_user s u))) v = map_of (data s) v \<and>
   map_of (data (snd (set_cycle_details s u d n))) v = map_of (data s) v \<and>
   map_of (data (snd (add_symptom today s u x))) v = map_of (data s) v \<and>
   map_of (data (snd (add_reminder s u y k))) v = map_of (data s) v \<and>
   snd (view_reminders s u) = s \<and>
   snd (predict_next_cycle s u) = s \<and>
   snd (view_symptoms s u) = s"
proof (intro conjI)
  assume ne: "v \<noteq> u"
  show "map_of (data (snd (register_user s u))) v = map_of (data s) v"
    using ne by (simp add: register_user_def Let_def save_data_def update_conv')
  show "map_of (data (snd (set_cycle_details s u d n))) v = map_of (data s) v"
    using ne set_cycle_details_cases [of s u d n] by (auto simp: update_conv')
  show "map_of (data (snd (add_symptom today s u x))) v = map_of (data s) v"
    using ne by (cases "map_of (data s) u") (simp_all add: add_symptom_def Let_def save_data_def update_conv')
  show "map_of (data (snd (add_reminder s u y k))) v = map_of (data s) v"
    using ne add_reminder_cases [of s u y k] by (auto simp: update_conv')
qed simp_all

theorem other_users_untouched_witness:
  "map_of (data (snd (register_user (tracker_of [(''alice'', alice1)]) ''bob''))) ''alice'' = Some alice1 \<and>
   map_of (data (snd (set_cycle_details (tracker_of [(''alice'', alice1), (''bob'', alice0)])
      ''bob'' ''2024-01-01'' 30))) ''alice'' = Some alice1 \<and>
   map_of (data (snd (add_symptom \<lparr>year = 2024, month = 3, day = 9\<rparr>
      (tracker_of [(''alice'', alice1), (''bob'', alice0)]) ''bob'' ''cramps''))) ''alice'' = Some alice1 \<and>
   map_of (data (snd (add_reminder (tracker_of [(''alice'', alice0), (''bob'', alice1)])
      ''bob'' ''Buy supplies'' 5))) ''alice'' = Some alice0"
proof -
  have ne: "''alice'' \<noteq> ''bob''" by simp
  show ?thesis
    using other_users_untouched [OF ne, of "tracker_of [(''alice'', alice1)]"]
          other_users_untouched [OF ne, of "tracker_of [(''alice'', alice1), (''bob'', alice0)]"
            "''2024-01-01''" 30 "\<lparr>year = 2024, month = 3, day = 9\<rparr>" "''cramps''"]
          other_users_untouched [OF ne, of "tracker_of [(''alice'', alice0), (''bob'', alice1)]"
            _ _ _ _ "''Buy supplies''" 5]
    by (simp add: tracker_of_def)
qed

subsection \<open>What every session keeps\<close>

lemma list_all_update:
  "list_all P d \<Longrightarrow> P (k, v) \<Longrightarrow> list_all P (AList.update k v d)"
  by (induction d) auto

lemma store_ok_update:
  "store_ok d \<Longrightarrow> date_ok (last_cycle_date r) \<Longrightarrow> store_ok (AList.update u r d)"
  by (simp add: store_ok_def distinct_update list_all_update)

lemma store_ok_lookup:
  "store_ok d \<Longrightarrow> map_of d u = Some r \<Longrightarrow> date_ok (last_cycle_date r)"
  by (auto simp: store_ok_def list_all_iff dest: map_of_SomeD)

lemma store_ok_register_user:
  "store_ok (data s) \<Longrightarrow> store_ok (data (snd (register_user s u)))"
  by (simp add: register_user_def Let_def save_data_def store_ok_update date_ok_def)

lemma store_ok_set_cycle_details:
  "store_ok (data s) \<Longrightarrow> store_ok (data (snd (set_cycle_details s u d n)))"
  using set_cycle_details_cases [of s u d n]
  by (auto simp: store_ok_update date_ok_def)

lemma store_ok_add_symptom:
  "store_ok (data s) \<Longrightarrow> store_ok (data (snd (add_symptom today s u x)))"
  by (cases "map_of (data s) u")
     (auto simp: add_symptom_def Let_def save_data_def intro!: store_ok_update intro: store_ok_lookup)

lemma store_ok_add_reminder:
  "store_ok (data s) \<Longrightarrow> store_ok (data (snd (add_reminder s u x k)))"
proof -
  assume ok: "store_ok (data s)"
  from add_reminder_cases [of s u x k] show ?thesis
  proof
    assume "snd (add_reminder s u x k) = s"
    with ok show ?thesis by simp
  next
    assume "\<exists>r e. map_of (data s) u = Some r \<and>
      snd (add_reminder s u x k) =
        s\<lparr>data := AList.update u (r\<lparr>reminders := reminders r @ [\<lparr>reminder = x, r_date = e\<rparr>]\<rparr>) (data s),
          DATA_FILE := Some (Document (json_dump
           (AList.update u (r\<lparr>reminders := reminders r @ [\<lparr>reminder = x, r_date = e\<rparr>]\<rparr>) (data s))))\<rparr>"
    then obtain r e where r: "map_of (data s) u = Some r"
      and s': "data (snd (add_reminder s u x k)) =
        AList.update u (r\<lparr>reminders := reminders r @ [\<lparr>reminder = x, r_date = e\<rparr>]\<rparr>) (data s)"
      by auto
    from ok r have "date_ok (last_cycle_date r)" by (rule store_ok_lookup)
    with ok show ?thesis by (simp add: s' store_ok_update)
  qed
qed

lemma store_ok_run_op: "store_ok (data s) \<Longrightarrow> store_ok (data (snd (run_op s x)))"
  by (cases x)
     (simp_all add: store_ok_register_user store_ok_set_cycle_details store_ok_add_symptom
        store_ok_add_reminder)

lemma store_ok_run_ops: "store_ok (data s) \<Longrightarrow> store_ok (data (run_ops s xs))"
  by (induction xs arbitrary: s) (simp_all add: store_ok_run_op)

lemma store_ok_init: "store_ok (data init)"
  by (simp add: init_def store_ok_def)

lemma strptime_empty: "strptime [] = Inl ValueError"
  by code_simp

lemma date_ok_Some: "date_ok (Some x) \<Longrightarrow> x \<noteq> []"
  by (auto simp: date_ok_def strptime_empty)

lemma add_reminder_no_cycle:
  "map_of (data s) u = Some r \<Longrightarrow> date_ok (last_cycle_date r) \<Longrightarrow>
   (fst (add_reminder s u x k) = Inr NoCycleDetails) = (last_cycle_date r = None)"
  by (auto simp: add_reminder_def Let_def NoCycleDetails_def dest: date_ok_Some
      split: option.splits sum.splits)

lemma predict_no_cycle:
  "map_of (data s) u = Some r \<Longrightarrow> date_ok (last_cycle_date r) \<Longrightarrow>
   (fst (predict_next_cycle s u) = Inr NoCycleDetails) = (last_cycle_date r = None)"
  by (auto simp: predict_next_cycle_def Let_def NoCycleDetails_def dest: date_ok_Some
      split: option.splits sum.splits)

subsection \<open>Missing cycle details\<close>

text \<open>
  C8. In a store built by a session, for a registered username, \<open>add_reminder\<close> and
  \<open>predict_next_cycle\<close> return the \<open>NoCycleDetails\<close> message exactly when the record
  has no last cycle date; in that case both return the tracker as it was (no change to the
  record, no write of the file).
\<close>

theorem no_cycle_details_iff:
  "map_of (data (run_ops init ops)) u = Some r \<Longrightarrow>
   (fst (add_reminder (run_ops init ops) u x k) = Inr NoCycleDetails) = (last_cycle_date r = None) \<and>
   (fst (predict_next_cycle (run_ops init ops) u) = Inr NoCycleDetails) = (last_cycle_date r = None) \<and>
   (last_cycle_date r = None \<longrightarrow>
      add_reminder (run_ops init ops) u x k = (Inr NoCycleDetails, run_ops init ops) \<and>
      predict_next_cycle (run_ops init ops) u = (Inr NoCycleDetails, run_ops init ops))"
proof -
  assume r: "map_of (data (run_ops init ops)) u = Some r"
  have "store_ok (data (run_ops init ops))"
    by (rule store_ok_run_ops [OF store_ok_init])
  then have ok: "date_ok (last_cycle_date r)" using r by (rule store_ok_lookup)
  show ?thesis
    using r by (simp add: add_reminder_no_cycle [OF r ok] predict_no_cycle [OF r ok])
      (simp add: add_reminder_def predict_next_cycle_def)
qed

lemma run_ops_alice0: "run_ops init [RegisterUser ''alice''] = tracker_of [(''alice'', alice0)]"
  by (simp add: init_def register_user_def Let_def save_data_def tracker_of_def alice0_def)

lemma run_ops_alice1:
  "run_ops init [RegisterUser ''alice'', SetCycleDetails ''alice'' ''2024-01-01'' 28] =
   tracker_of [(''alice'', alice1)]"
  by (simp add: init_def register_user_def set_cycle_details_def strptime_2024_01_01
      Let_def save_data_def tracker_of_def alice1_def)

theorem no_cycle_details_iff_witness:
  "add_reminder (tracker_of [(''alice'', alice0)]) ''alice'' ''Buy supplies'' 5 =
     (Inr NoCycleDetails, tracker_of [(''alice'', alice0)]) \<and>
   predict_next_cycle (tracker_of [(''alice'', alice0)]) ''alice'' =
     (Inr NoCycleDetails, tracker_of [(''alice'', alice0)]) \<and>
   fst (add_reminder (tracker_of [(''alice'', alice1)]) ''alice'' ''Buy supplies'' 5) \<noteq> Inr NoCycleDetails \<and>
   fst (predict_next_cycle (tracker_of [(''alice'', alice1)]) ''alice'') \<noteq> Inr NoCycleDetails"
proof -
  have a: "map_of (data (run_ops init [RegisterUser ''alice''])) ''alice'' = Some alice0"
    by (simp only: run_ops_alice0) (simp add: tracker_of_def)
  have b: "map_of (data (run_ops init [RegisterUser ''alice'',
      SetCycleDetails ''alice'' ''2024-01-01'' 28])) ''alice'' = Some alice1"
    by (simp only: run_ops_alice1) (simp add: tracker_of_def)
  show ?thesis
    using no_cycle_details_iff [OF a, of "''Buy supplies''" 5]
          no_cycle_details_iff [OF b, of "''Buy supplies''" 5]
    by (simp only: run_ops_alice0 run_ops_alice1) (simp add: alice0_def alice1_def)
qed

subsection \<open>The file and the store\<close>

lemma foldl_update_distinct:
  "distinct (map fst (acc @ kvs)) \<Longrightarrow>
   foldl (\<lambda>d (k, v). AList.update k v d) acc kvs = acc @ kvs"
proof (induction kvs arbitrary: acc)
  case Nil
  then show ?case by simp
next
  case (Cons p kvs)
  obtain k v where p: "p = (k, v)" by (cases p)
  from Cons.prems p have "map_of acc k = None"
    by (auto simp: map_of_eq_None_iff)
  then have "AList.update k v acc = acc @ [(k, v)]" by (rule update_fresh)
  with Cons.IH [of "acc @ [(k, v)]"] Cons.prems p show ?case by simp
qed

lemma py_dict_distinct: "distinct (map fst kvs) \<Longrightarrow> py_dict kvs = kvs"
  using foldl_update_distinct [of "[]" kvs] by (simp add: py_dict_def)

lemma those_map_Some: "(\<And>x. x \<in> set xs \<Longrightarrow> f x = Some (g x)) \<Longrightarrow> those (map f xs) = Some (map g xs)"
  by (induction xs) simp_all

lemma symptom_roundtrip: "symptom_of_json (json_of_symptom e) = Some e"
  by (simp add: symptom_of_json_def json_of_symptom_def py_dict_def insert_commute)

lemma reminder_roundtrip: "reminder_of_json (json_of_reminder e) = Some e"
  by (simp add: reminder_of_json_def json_of_reminder_def py_dict_def insert_commute)

lemma symptoms_roundtrip: "those (map (symptom_of_json \<circ> json_of_symptom) xs) = Some xs"
  using those_map_Some [of xs "symptom_of_json \<circ> json_of_symptom" id]
  by (simp add: symptom_roundtrip)

lemma reminders_roundtrip: "those (map (reminder_of_json \<circ> json_of_reminder) xs) = Some xs"
  using those_map_Some [of xs "reminder_of_json \<circ> json_of_reminder" id]
  by (simp add: reminder_roundtrip)

lemma user_dict:
  "py_dict [(''last_cycle_date'', a), (''cycle_length'', b), (''symptoms'', c), (''reminders'', d)] =
   [(''last_cycle_date'', a), (''cycle_length'', b), (''symptoms'', c), (''reminders'', d)]"
  by (rule py_dict_distinct) simp

lemma user_roundtrip: "user_of_json (json_of_user r) = Some r"
  by (cases "last_cycle_date r")
     (simp_all add: user_of_json_def json_of_user_def user_dict date_of_json_def
        symptoms_roundtrip reminders_roundtrip)

lemma store_roundtrip:
  "distinct (map fst d) \<Longrightarrow> store_of_json (json_dump d) = Some d"
proof -
  assume d: "distinct (map fst d)"
  let ?kvs = "map (\<lambda>(u, r). (u, json_of_user r)) d"
  have "map fst ?kvs = map fst d"
    by (induction d) auto
  with d have "distinct (map fst ?kvs)" by (simp only:)
  then have 1: "py_dict ?kvs = ?kvs" by (rule py_dict_distinct)
  have 2: "those (map ((\<lambda>(u, v). map_option (Pair u) (user_of_json v)) \<circ> (\<lambda>(u, r). (u, json_of_user r))) d) = Some (map id d)"
    by (rule those_map_Some) (auto simp: user_roundtrip)
  show ?thesis
    using 2 by (simp add: store_of_json_def json_dump_def 1)
qed

lemma load_after_save:
  "distinct (map fst (data s)) \<Longrightarrow> load_data (DATA_FILE (save_data s)) = Some (data s)"
  by (simp add: load_data_def save_data_def store_roundtrip)

lemma run_op_saves:
  "snd (run_op s x) = s \<or> (\<exists>t. snd (run_op s x) = save_data t)"
proof (cases x)
  case (RegisterUser u)
  then show ?thesis by (auto simp: register_user_def Let_def)
next
  case (SetCycleDetails u d n)
  then show ?thesis
    by (auto simp: set_cycle_details_def Let_def split: option.splits sum.splits py_exn.splits)
next
  case (AddSymptom today u y)
  then show ?thesis by (auto simp: add_symptom_def Let_def split: option.splits)
next
  case (AddReminder u y k)
  then show ?thesis
    by (auto simp: add_reminder_def Let_def split: option.splits sum.splits)
qed simp_all

lemma file_in_step:
  "DATA_FILE (run_ops init ops) = None \<and> data (run_ops init ops) = [] \<or>
   DATA_FILE (run_ops init ops) = Some (Document (json_dump (data (run_ops init ops))))"
proof -
  have "DATA_FILE s = None \<and> data s = [] \<or> DATA_FILE s = Some (Document (json_dump (data s))) \<Longrightarrow>
        DATA_FILE (run_ops s ops) = None \<and> data (run_ops s ops) = [] \<or>
        DATA_FILE (run_ops s ops) = Some (Document (json_dump (data (run_ops s ops))))" for s
  proof (induction ops arbitrary: s)
    case Nil
    then show ?case by simp
  next
    case (Cons x xs)
    from run_op_saves [of s x]
    have "DATA_FILE (snd (run_op s x)) = None \<and> data (snd (run_op s x)) = [] \<or>
          DATA_FILE (snd (run_op s x)) = Some (Document (json_dump (data (snd (run_op s x)))))"
      using Cons.prems by (auto simp: save_data_def)
    then show ?case using Cons.IH by simp
  qed
  then show ?thesis by (simp add: init_def)
qed

text \<open>
  C6. For the tracker any session leaves, \<open>save_data\<close> followed by \<open>load_data\<close>
  gives back the store that was saved: the same usernames in the same order, the same
  fields, the same order of symptoms and reminders. The file of a session is moreover
  always in step with its store, so \<open>load_data\<close> alone gives it back as well.
\<close>

theorem save_load_roundtrip:
  "load_data (DATA_FILE (save_data (run_ops init ops))) = Some (data (run_ops init ops)) \<and>
   load_data (DATA_FILE (run_ops init ops)) = Some (data (run_ops init ops))"
proof -
  have "store_ok (data (run_ops init ops))"
    by (rule store_ok_run_ops [OF store_ok_init])
  then have d: "distinct (map fst (data (run_ops init ops)))"
    by (simp add: store_ok_def)
  then have 1: "load_data (DATA_FILE (save_data (run_ops init ops))) = Some (data (run_ops init ops))"
    by (rule load_after_save)
  from file_in_step [of ops]
  have 2: "load_data (DATA_FILE (run_ops init ops)) = Some (data (run_ops init ops))"
    using d by (auto simp: load_data_def store_roundtrip)
  from 1 2 show ?thesis ..
qed

lemma run_session2: "run_ops init session2 = tracker_of [(''alice'', alice2), (''bob'', alice0)]"
  by code_simp

theorem save_load_roundtrip_witness:
  "load_data (DATA_FILE (save_data (tracker_of [(''alice'', alice2), (''bob'', alice0)]))) =
     Some [(''alice'', alice2), (''bob'', alice0)] \<and>
   load_data (DATA_FILE (tracker_of [(''alice'', alice2), (''bob'', alice0)])) =
     Some [(''alice'', alice2), (''bob'', alice0)]"
  using save_load_roundtrip [of session2]
  by (simp only: run_session2) (simp add: tracker_of_def)

subsection \<open>Prediction\<close>

lemma read_only_state: "read_only x \<Longrightarrow> snd (run_op s x) = s"
  by (cases x) simp_all

lemma read_only_run_ops: "list_all read_only xs \<Longrightarrow> run_ops s xs = s"
  by (induction xs) (simp_all add: read_only_state)

lemma strptime_nonempty: "strptime x = Inr dt \<Longrightarrow> x \<noteq> []"
  using strptime_empty by auto

lemma predict_next_cycle_set:
  assumes r: "map_of (data s) u = Some r" and l: "last_cycle_date r = Some x"
    and x: "strptime x = Inr dt"
  shows "predict_next_cycle s u =
     (if 0 < toordinal dt + cycle_length r \<and> toordinal dt + cycle_length r \<le> MAXORDINAL
      then Inr (''Next cycle for '' @ u @ '' is predicted on ''
                @ isoformat (ord2ymd (toordinal dt + cycle_length r)) @ ''.'')
      else Inl OverflowError, s)"
  using r l strptime_nonempty [OF x]
  by (simp add: predict_next_cycle_def next_cycle_date_eq [OF x])

text \<open>
  C1 (amended). For a registered username and a date string that \<open>strptime\<close> accepts
  as the date \<open>dt\<close>, \<open>predict_next_cycle\<close> after \<open>set_cycle_details\<close>, with any
  number of read-only calls in between, returns the date \<open>n\<close> days after \<open>dt\<close> whenever
  that date is one the library can represent (ordinal 1 to \<open>MAXORDINAL\<close>, that is
  0001-01-01 to 9999-12-31); otherwise \<^verbatim>\<open>OverflowError\<close> leaves the method. The
  read-only calls leave the tracker as \<open>set_cycle_details\<close> left it. The date returned
  is a calendar date whose ordinal is the ordinal of \<open>dt\<close> plus \<open>n\<close>.
\<close>

theorem predict_after_set_cycle_details:
  assumes reg: "map_of (data s) u \<noteq> None" and d: "strptime d = Inr dt"
    and ro: "list_all read_only ops"
  shows "predict_next_cycle (run_ops (snd (set_cycle_details s u d n)) ops) u =
           (if 0 < toordinal dt + n \<and> toordinal dt + n \<le> MAXORDINAL
            then Inr (''Next cycle for '' @ u @ '' is predicted on ''
                      @ isoformat (ord2ymd (toordinal dt + n)) @ ''.'')
            else Inl OverflowError,
            snd (set_cycle_details s u d n)) \<and>
         (0 < toordinal dt + n \<and> toordinal dt + n \<le> MAXORDINAL \<longrightarrow>
            valid_date (ord2ymd (toordinal dt + n)) \<and>
            toordinal (ord2ymd (toordinal dt + n)) = toordinal dt + n)"
proof -
  from reg obtain r where r: "map_of (data s) u = Some r" by auto
  let ?r' = "r\<lparr>last_cycle_date := Some d, cycle_length := n\<rparr>"
  let ?s' = "snd (set_cycle_details s u d n)"
  have "data ?s' = AList.update u ?r' (data s)"
    by (simp add: set_cycle_details_good_date [OF r d])
  then have r': "map_of (data ?s') u = Some ?r'"
    by (simp add: update_conv')
  have "predict_next_cycle ?s' u =
           (if 0 < toordinal dt + n \<and> toordinal dt + n \<le> MAXORDINAL
            then Inr (''Next cycle for '' @ u @ '' is predicted on ''
                      @ isoformat (ord2ymd (toordinal dt + n)) @ ''.'')
            else Inl OverflowError, ?s')"
    using predict_next_cycle_set [OF r' _ d] by simp
  then show ?thesis
    using ord2ymd_valid [of "toordinal dt + n"]
    by (simp add: read_only_run_ops [OF ro])
qed

lemma toordinal_2024_01_01: "toordinal \<lparr>year = 2024, month = 1, day = 1\<rparr> = 738886"
  by code_simp

lemma ord2ymd_738914: "ord2ymd 738914 = \<lparr>year = 2024, month = 1, day = 29\<rparr>"
  by code_simp

lemma isoformat_2024_01_29: "isoformat \<lparr>year = 2024, month = 1, day = 29\<rparr> = ''2024-01-29''"
  by code_simp

theorem predict_after_set_cycle_details_witness:
  "predict_next_cycle (run_ops (snd (set_cycle_details (tracker_of [(''alice'', alice0)])
       ''alice'' ''2024-01-01'' 28)) [ViewReminders ''alice'', PredictNextCycle ''alice'',
       ViewSymptoms ''bob'']) ''alice'' =
     (Inr ''Next cycle for alice is predicted on 2024-01-29.'',
      snd (set_cycle_details (tracker_of [(''alice'', alice0)]) ''alice'' ''2024-01-01'' 28)) \<and>
   predict_next_cycle (run_ops (snd (set_cycle_details (tracker_of [(''alice'', alice0)])
       ''alice'' ''2024-01-01'' 3000000)) []) ''alice'' =
     (Inl OverflowError,
      snd (set_cycle_details (tracker_of [(''alice'', alice0)]) ''alice'' ''2024-01-01'' 3000000))"
proof -
  have reg: "map_of (data (tracker_of [(''alice'', alice0)])) ''alice'' \<noteq> None"
    by (simp add: tracker_of_def)
  have ro: "list_all read_only [ViewReminders ''alice'', PredictNextCycle ''alice'', ViewSymptoms ''bob'']"
    by simp
  have ro0: "list_all read_only []" by simp
  show ?thesis
    using predict_after_set_cycle_details [OF reg strptime_2024_01_01 ro, of 28]
          predict_after_set_cycle_details [OF reg strptime_2024_01_01 ro0, of 3000000]
    by (simp only: toordinal_2024_01_01)
       (simp add: MAXORDINAL_def ord2ymd_738914 isoformat_2024_01_29)
qed

text \<open>
  C1 as written, for every cycle length: \<open>set_cycle_details\<close> accepts
  2024-01-01 with a cycle length of 3000000 days, and \<open>predict_next_cycle\<close> then raises
  \<^verbatim>\<open>OverflowError\<close> instead of returning a date.
\<close>

theorem predict_overflow_counterexample:
  "fst (set_cycle_details (tracker_of [(''alice'', alice0)]) ''alice'' ''2024-01-01'' 3000000) =
     Inr (''Cycle details updated for '' @ quoted ''alice'' @ ''.'') \<and>
   fst (predict_next_cycle
     (snd (set_cycle_details (tracker_of [(''alice'', alice0)]) ''alice'' ''2024-01-01'' 3000000))
     ''alice'') = Inl OverflowError"
proof -
  have r: "map_of (data (tracker_of [(''alice'', alice0)])) ''alice'' = Some alice0"
    by (simp add: tracker_of_def)
  let ?s' = "snd (set_cycle_details (tracker_of [(''alice'', alice0)]) ''alice'' ''2024-01-01'' 3000000)"
  have 1: "fst (set_cycle_details (tracker_of [(''alice'', alice0)]) ''alice'' ''2024-01-01'' 3000000) =
     Inr (''Cycle details updated for '' @ quoted ''alice'' @ ''.'')"
    by (simp add: set_cycle_details_good_date [OF r strptime_2024_01_01])
  have r': "map_of (data ?s') ''alice'' =
      Some (alice0\<lparr>last_cycle_date := Some ''2024-01-01'', cycle_length := 3000000\<rparr>)"
    by (simp only: set_cycle_details_good_date [OF r strptime_2024_01_01])
       (simp add: tracker_of_def)
  have 2: "fst (predict_next_cycle ?s' ''alice'') = Inl OverflowError"
    using predict_next_cycle_set [OF r' _ strptime_2024_01_01]
    by (simp add: toordinal_2024_01_01 MAXORDINAL_def)
  from 1 2 show ?thesis ..
qed

subsection \<open>Reminders\<close>

lemma join_contains:
  "x \<in> set xs \<Longrightarrow> \<exists>ps ss. join sep xs = ps @ x @ ss"
proof (induction sep xs rule: join.induct)
  case (1 sep)
  then show ?case by simp
next
  case (2 sep y)
  then have "join sep [y] = [] @ x @ []" by simp
  then show ?case by blast
next
  case (3 sep y z zs)
  show ?case
  proof (cases "x = y")
    case True
    then have "join sep (y # z # zs) = [] @ x @ (sep @ join sep (z # zs))" by simp
    then show ?thesis by blast
  next
    case False
    with 3 obtain ps ss where "join sep (z # zs) = ps @ x @ ss" by auto
    then have "join sep (y # z # zs) = (y @ sep @ ps) @ x @ ss" by simp
    then show ?thesis by blast
  qed
qed

lemma add_reminder_set:
  assumes r: "map_of (data s) u = Some r" and l: "last_cycle_date r = Some lcd"
    and x: "strptime lcd = Inr dt"
  shows "add_reminder s u y k =
     (if 0 < toordinal dt + cycle_length r \<and> toordinal dt + cycle_length r \<le> MAXORDINAL \<and>
         0 < toordinal dt + cycle_length r - k \<and> toordinal dt + cycle_length r - k \<le> MAXORDINAL
      then (Inr (''Reminder '' @ quoted y @ '' added for '' @ u @ '' on ''
                 @ isoformat (ord2ymd (toordinal dt + cycle_length r - k)) @ ''.''),
            \<lparr>data = AList.update u (r\<lparr>reminders := reminders r @
                       [\<lparr>reminder = y, r_date = isoformat (ord2ymd (toordinal dt + cycle_length r - k))\<rparr>]\<rparr>)
                     (data s),
             DATA_FILE = Some (Document (json_dump (AList.update u (r\<lparr>reminders := reminders r @
                       [\<lparr>reminder = y, r_date = isoformat (ord2ymd (toordinal dt + cycle_length r - k))\<rparr>]\<rparr>)
                     (data s))))\<rparr>)
      else (Inl OverflowError, s))"
proof (cases "0 < toordinal dt + cycle_length r \<and> toordinal dt + cycle_length r \<le> MAXORDINAL")
  case False
  then have nd: "next_cycle_date lcd (cycle_length r) = Inl OverflowError"
    by (simp only: next_cycle_date_eq [OF x] if_False)
  have "add_reminder s u y k = (Inl OverflowError, s)"
    using r l strptime_nonempty [OF x] by (simp add: add_reminder_def nd)
  moreover have "\<not> (0 < toordinal dt + cycle_length r \<and> toordinal dt + cycle_length r \<le> MAXORDINAL \<and>
         0 < toordinal dt + cycle_length r - k \<and> toordinal dt + cycle_length r - k \<le> MAXORDINAL)"
    using False by blast
  ultimately show ?thesis by (simp only: if_False)
next
  case True
  let ?nd = "ord2ymd (toordinal dt + cycle_length r)"
  from True have v: "valid_date ?nd" and t: "toordinal ?nd = toordinal dt + cycle_length r"
    by (simp_all add: ord2ymd_valid)
  have nd: "next_cycle_date lcd (cycle_length r) = Inr ?nd"
    using True by (simp add: next_cycle_date_eq [OF x])
  show ?thesis
  proof (cases "0 < toordinal dt + cycle_length r - k \<and> toordinal dt + cycle_length r - k \<le> MAXORDINAL")
    case inr: True
    with toordinal_bounds [OF v] t have "\<bar>k\<bar> \<le> 999999999"
      unfolding MAXORDINAL_def by linarith
    then have td: "timedelta k = Inr k"
      by (simp add: timedelta_def)
    from inr t have ds: "date_sub ?nd k = Inr (ord2ymd (toordinal dt + cycle_length r - k))"
      by (simp add: date_sub_def date_add_eq)
    show ?thesis
      using r l strptime_nonempty [OF x] True inr
      by (simp add: add_reminder_def nd td ds Let_def save_data_def)
  next
    case outr: False
    have "timedelta k = Inl OverflowError \<or> timedelta k = Inr k \<and> date_sub ?nd k = Inl OverflowError"
      using outr t by (auto simp: timedelta_def date_sub_def date_add_eq)
    then have "add_reminder s u y k = (Inl OverflowError, s)"
      using r l strptime_nonempty [OF x] by (auto simp: add_reminder_def nd)
    moreover have "\<not> (0 < toordinal dt + cycle_length r \<and> toordinal dt + cycle_length r \<le> MAXORDINAL \<and>
         0 < toordinal dt + cycle_length r - k \<and> toordinal dt + cycle_length r - k \<le> MAXORDINAL)"
      using outr by blast
    ultimately show ?thesis by (simp only: if_False)
  qed
qed

text \<open>
  C4 (amended). For a registered username whose last cycle date is set (to a string that
  parses as \<open>dt\<close>), and any integer \<open>days_before\<close>, negative or larger than the cycle
  length, for which both the next cycle date and the reminder date are dates the library
  can represent, \<open>add_reminder\<close> appends a reminder dated \<open>days_before\<close> days before
  the date \<open>cycle_length\<close> days after \<open>dt\<close>, writes the file, and names that date in
  its confirmation; \<open>view_reminders\<close> afterwards contains the line of that reminder.
\<close>

theorem add_reminder_date:
  assumes r: "map_of (data s) u = Some r" and l: "last_cycle_date r = Some lcd"
    and x: "strptime lcd = Inr dt"
    and n: "0 < toordinal dt + cycle_length r" "toordinal dt + cycle_length r \<le> MAXORDINAL"
    and k: "0 < toordinal dt + cycle_length r - k" "toordinal dt + cycle_length r - k \<le> MAXORDINAL"
  shows "fst (add_reminder s u y k) =
           Inr (''Reminder '' @ quoted y @ '' added for '' @ u @ '' on ''
                @ isoformat (ord2ymd (toordinal dt + cycle_length r - k)) @ ''.'') \<and>
         map_of (data (snd (add_reminder s u y k))) u =
           Some (r\<lparr>reminders := reminders r @
             [\<lparr>reminder = y, r_date = isoformat (ord2ymd (toordinal dt + cycle_length r - k))\<rparr>]\<rparr>) \<and>
         DATA_FILE (snd (add_reminder s u y k)) =
           Some (Document (json_dump (data (snd (add_reminder s u y k))))) \<and>
         valid_date (ord2ymd (toordinal dt + cycle_length r - k)) \<and>
         toordinal (ord2ymd (toordinal dt + cycle_length r - k)) = toordinal dt + cycle_length r - k \<and>
         (\<exists>ps ss. fst (view_reminders (snd (add_reminder s u y k)) u) =
            Inr (ps @ reminder_line
              \<lparr>reminder = y, r_date = isoformat (ord2ymd (toordinal dt + cycle_length r - k))\<rparr> @ ss))"
proof -
  let ?e = "\<lparr>reminder = y, r_date = isoformat (ord2ymd (toordinal dt + cycle_length r - k))\<rparr>"
  let ?r' = "r\<lparr>reminders := reminders r @ [?e]\<rparr>"
  let ?s' = "snd (add_reminder s u y k)"
  have eq: "add_reminder s u y k =
      (Inr (''Reminder '' @ quoted y @ '' added for '' @ u @ '' on ''
                 @ isoformat (ord2ymd (toordinal dt + cycle_length r - k)) @ ''.''),
       \<lparr>data = AList.update u ?r' (data s),
        DATA_FILE = Some (Document (json_dump (AList.update u ?r' (data s))))\<rparr>)"
    using add_reminder_set [OF r l x, of y k] n k by simp
  have r': "map_of (data ?s') u = Some ?r'"
    by (simp add: eq update_conv')
  have "reminder_line ?e \<in> set (map reminder_line (sort_key r_date (reminders ?r')))"
    by simp
  then obtain ps ss where
    "join ''\<newline>'' (map reminder_line (sort_key r_date (reminders ?r'))) = ps @ reminder_line ?e @ ss"
    using join_contains by blast
  then have v: "fst (view_reminders ?s' u) = Inr (ps @ reminder_line ?e @ ss)"
    using r' by (simp add: view_reminders_def)
  have o: "valid_date (ord2ymd (toordinal dt + cycle_length r - k))"
    "toordinal (ord2ymd (toordinal dt + cycle_length r - k)) = toordinal dt + cycle_length r - k"
    using k by (simp_all add: ord2ymd_valid)
  show ?thesis
    using r' v o by (auto simp: eq)
qed

lemma ord2ymd_738909: "ord2ymd 738909 = \<lparr>year = 2024, month = 1, day = 24\<rparr>"
  by code_simp

lemma ord2ymd_738917: "ord2ymd 738917 = \<lparr>year = 2024, month = 2, day = 1\<rparr>"
  by code_simp

lemma ord2ymd_738874: "ord2ymd 738874 = \<lparr>year = 2023, month = 12, day = 20\<rparr>"
  by code_simp

lemma isoformat_examples:
  "isoformat \<lparr>year = 2024, month = 1, day = 24\<rparr> = ''2024-01-24''"
  "isoformat \<lparr>year = 2024, month = 2, day = 1\<rparr> = ''2024-02-01''"
  "isoformat \<lparr>year = 2023, month = 12, day = 20\<rparr> = ''2023-12-20''"
  by code_simp+

theorem add_reminder_date_witness:
  "map_of (data (snd (add_reminder (tracker_of [(''alice'', alice1)]) ''alice'' ''Buy supplies'' 5)))
     ''alice'' =
     Some (alice1\<lparr>reminders := [\<lparr>reminder = ''Buy supplies'', r_date = ''2024-01-24''\<rparr>]\<rparr>) \<and>
   map_of (data (snd (add_reminder (tracker_of [(''alice'', alice1)]) ''alice'' ''After'' (- 3))))
     ''alice'' =
     Some (alice1\<lparr>reminders := [\<lparr>reminder = ''After'', r_date = ''2024-02-01''\<rparr>]\<rparr>) \<and>
   map_of (data (snd (add_reminder (tracker_of [(''alice'', alice1)]) ''alice'' ''Before'' 40)))
     ''alice'' =
     Some (alice1\<lparr>reminders := [\<lparr>reminder = ''Before'', r_date = ''2023-12-20''\<rparr>]\<rparr>)"
proof -
  have r: "map_of (data (tracker_of [(''alice'', alice1)])) ''alice'' = Some alice1"
    by (simp add: tracker_of_def)
  have l: "last_cycle_date alice1 = Some ''2024-01-01''" by (simp add: alice1_def)
  have c: "cycle_length alice1 = 28" by (simp add: alice1_def)
  have e: "reminders alice1 = []" by (simp add: alice1_def)
  note t = toordinal_2024_01_01
  have a: "0 < toordinal \<lparr>year = 2024, month = 1, day = 1\<rparr> + cycle_length alice1"
    "toordinal \<lparr>year = 2024, month = 1, day = 1\<rparr> + cycle_length alice1 \<le> MAXORDINAL"
    by (simp_all add: t c MAXORDINAL_def)
  have k1: "0 < toordinal \<lparr>year = 2024, month = 1, day = 1\<rparr> + cycle_length alice1 - 5"
    "toordinal \<lparr>year = 2024, month = 1, day = 1\<rparr> + cycle_length alice1 - 5 \<le> MAXORDINAL"
    by (simp_all add: t c MAXORDINAL_def)
  have k2: "0 < toordinal \<lparr>year = 2024, month = 1, day = 1\<rparr> + cycle_length alice1 - (- 3)"
    "toordinal \<lparr>year = 2024, month = 1, day = 1\<rparr> + cycle_length alice1 - (- 3) \<le> MAXORDINAL"
    by (simp_all add: t c MAXORDINAL_def)
  have k3: "0 < toordinal \<lparr>year = 2024, month = 1, day = 1\<rparr> + cycle_length alice1 - 40"
    "toordinal \<lparr>year = 2024, month = 1, day = 1\<rparr> + cycle_length alice1 - 40 \<le> MAXORDINAL"
    by (simp_all add: t c MAXORDINAL_def)
  show ?thesis
    using add_reminder_date [OF r l strptime_2024_01_01 a k1, of "''Buy supplies''"]
          add_reminder_date [OF r l strptime_2024_01_01 a k2, of "''After''"]
          add_reminder_date [OF r l strptime_2024_01_01 a k3, of "''Before''"]
    by (simp add: t c e ord2ymd_738909 ord2ymd_738917 ord2ymd_738874 isoformat_examples)
qed

text \<open>
  C4 as written, for every integer \<open>days_before\<close>: with last cycle date
  2024-01-01 and cycle length 28, \<open>add_reminder\<close> with 800000 days raises
  \<^verbatim>\<open>OverflowError\<close> and appends nothing.
\<close>

theorem add_reminder_overflow_counterexample:
  "add_reminder (tracker_of [(''alice'', alice1)]) ''alice'' ''Buy supplies'' 800000 =
     (Inl OverflowError, tracker_of [(''alice'', alice1)])"
proof -
  have r: "map_of (data (tracker_of [(''alice'', alice1)])) ''alice'' = Some alice1"
    by (simp add: tracker_of_def)
  have l: "last_cycle_date alice1 = Some ''2024-01-01''" by (simp add: alice1_def)
  have c: "cycle_length alice1 = 28" by (simp add: alice1_def)
  show ?thesis
    using add_reminder_set [OF r l strptime_2024_01_01, of "''Buy supplies''" 800000]
    by (simp add: toordinal_2024_01_01 c)
qed

subsection \<open>Viewing reminders and symptoms\<close>

lemma date_add_valid: "date_add dt n = Inr rd \<Longrightarrow> valid_date rd"
  by (auto simp: date_add_eq ord2ymd_valid split: if_splits)

lemma add_reminder_cases_iso:
  "snd (add_reminder s u x k) = s \<or>
   (\<exists>r rd. map_of (data s) u = Some r \<and> valid_date rd \<and>
      data (snd (add_reminder s u x k)) =
        AList.update u (r\<lparr>reminders := reminders r @ [\<lparr>reminder = x, r_date = isoformat rd\<rparr>]\<rparr>) (data s))"
  by (auto simp: add_reminder_def Let_def save_data_def date_sub_def
      split: option.splits sum.splits dest: date_add_valid)

lemma reminders_ok_update:
  "reminders_ok d \<Longrightarrow> list_all (\<lambda>e. iso_date (r_date e)) (reminders r) \<Longrightarrow>
   reminders_ok (AList.update u r d)"
  by (simp add: reminders_ok_def list_all_update)

lemma reminders_ok_lookup:
  "reminders_ok d \<Longrightarrow> map_of d u = Some r \<Longrightarrow> list_all (\<lambda>e. iso_date (r_date e)) (reminders r)"
  by (auto simp: reminders_ok_def list_all_iff dest: map_of_SomeD)

lemma reminders_ok_register_user:
  "reminders_ok (data s) \<Longrightarrow> reminders_ok (data (snd (register_user s u)))"
  by (simp add: register_user_def Let_def save_data_def reminders_ok_update)

lemma reminders_ok_set_cycle_details:
  assumes ok: "reminders_ok (data s)"
  shows "reminders_ok (data (snd (set_cycle_details s u d n)))"
proof -
  from set_cycle_details_cases [of s u d n] show ?thesis
  proof
    assume "snd (set_cycle_details s u d n) = s"
    with ok show ?thesis by simp
  next
    assume "\<exists>r. map_of (data s) u = Some r \<and> \<not> isl (strptime d) \<and>
      snd (set_cycle_details s u d n) =
        s\<lparr>data := AList.update u (r\<lparr>last_cycle_date := Some d, cycle_length := n\<rparr>) (data s),
          DATA_FILE := Some (Document (json_dump
           (AList.update u (r\<lparr>last_cycle_date := Some d, cycle_length := n\<rparr>) (data s))))\<rparr>"
    then obtain r where r: "map_of (data s) u = Some r"
      and s': "data (snd (set_cycle_details s u d n)) =
        AList.update u (r\<lparr>last_cycle_date := Some d, cycle_length := n\<rparr>) (data s)"
      by auto
    from reminders_ok_lookup [OF ok r] ok show ?thesis
      by (simp add: s' reminders_ok_update)
  qed
qed

lemma reminders_ok_add_symptom:
  assumes ok: "reminders_ok (data s)"
  shows "reminders_ok (data (snd (add_symptom today s u x)))"
proof (cases "map_of (data s) u")
  case None
  with ok show ?thesis by (simp add: add_symptom_def)
next
  case (Some r)
  from reminders_ok_lookup [OF ok Some] ok show ?thesis
    by (simp add: add_symptom_known [OF Some] reminders_ok_update)
qed

lemma reminders_ok_add_reminder:
  assumes ok: "reminders_ok (data s)"
  shows "reminders_ok (data (snd (add_reminder s u x k)))"
proof -
  from add_reminder_cases_iso [of s u x k] show ?thesis
  proof
    assume "snd (add_reminder s u x k) = s"
    with ok show ?thesis by simp
  next
    assume "\<exists>r rd. map_of (data s) u = Some r \<and> valid_date rd \<and>
      data (snd (add_reminder s u x k)) =
        AList.update u (r\<lparr>reminders := reminders r @ [\<lparr>reminder = x, r_date = isoformat rd\<rparr>]\<rparr>) (data s)"
    then obtain r rd where r: "map_of (data s) u = Some r" and v: "valid_date rd"
      and s': "data (snd (add_reminder s u x k)) =
        AList.update u (r\<lparr>reminders := reminders r @ [\<lparr>reminder = x, r_date = isoformat rd\<rparr>]\<rparr>) (data s)"
      by auto
    from v have "iso_date (isoformat rd)" by (auto simp: iso_date_def)
    with reminders_ok_lookup [OF ok r] ok show ?thesis
      by (simp add: s' reminders_ok_update)
  qed
qed

lemma reminders_ok_run_op: "reminders_ok (data s) \<Longrightarrow> reminders_ok (data (snd (run_op s x)))"
  by (cases x)
     (simp_all add: reminders_ok_register_user reminders_ok_set_cycle_details
        reminders_ok_add_symptom reminders_ok_add_reminder)

lemma reminders_ok_run_ops: "reminders_ok (data s) \<Longrightarrow> reminders_ok (data (run_ops s xs))"
  by (induction xs arbitrary: s) (simp_all add: reminders_ok_run_op)

lemma reminders_ok_init: "reminders_ok (data init)"
  by (simp add: init_def reminders_ok_def)

lemma iso_dates_obtain:
  "list_all iso_date xs \<Longrightarrow> \<exists>ds. xs = map isoformat ds \<and> list_all valid_date ds"
proof (induction xs)
  case Nil
  then show ?case by simp
next
  case (Cons x xs)
  then obtain ds where ds: "xs = map isoformat ds" "list_all valid_date ds" by auto
  from Cons.prems obtain dt where dt: "valid_date dt" "x = isoformat dt"
    by (auto simp: iso_date_def)
  from ds dt have "x # xs = map isoformat (dt # ds) \<and> list_all valid_date (dt # ds)" by simp
  then show ?case by (rule exI [of _ "dt # ds"])
qed

lemma sorted_isoformat:
  assumes v: "list_all valid_date ds" and s: "sorted (map isoformat ds)"
  shows "sorted (map toordinal ds)"
proof -
  from s have "sorted_wrt (\<lambda>a b. isoformat a \<le> isoformat b) ds"
    by (simp add: sorted_map)
  then have "sorted_wrt (\<lambda>a b. toordinal a \<le> toordinal b) ds"
  proof (rule sorted_wrt_mono_rel [rotated])
    fix a b assume "a \<in> set ds" "b \<in> set ds" "isoformat a \<le> isoformat b"
    with v show "toordinal a \<le> toordinal b"
      by (simp add: list_all_iff isoformat_le)
  qed
  then show ?thesis by (simp add: sorted_map)
qed

lemma join_hd:
  "xs \<noteq> [] \<Longrightarrow> hd xs \<noteq> [] \<Longrightarrow> hd (join sep xs) = hd (hd xs)"
  by (induction sep xs rule: join.induct) simp_all

lemma reminders_output_nonempty:
  assumes "rs \<noteq> []"
  shows "join sep (map reminder_line (sort_key r_date rs)) \<noteq> ''No reminders set.''"
proof -
  from assms have n: "sort_key r_date rs \<noteq> []"
    by (metis length_sort length_0_conv)
  then have "hd (join sep (map reminder_line (sort_key r_date rs))) = CHR ''-''"
    by (subst join_hd) (simp_all add: hd_map reminder_line_def)
  then show ?thesis by auto
qed

lemma symptoms_output_nonempty:
  assumes "ss \<noteq> []"
  shows "join sep (map symptom_line ss) \<noteq> ''No symptoms logged.''"
proof -
  from assms have "hd (join sep (map symptom_line ss)) = CHR ''-''"
    by (subst join_hd) (simp_all add: hd_map symptom_line_def)
  then show ?thesis by auto
qed

text \<open>
  C5. In a store built by a session, for a registered username: \<open>view_reminders\<close>
  returns the \<^verbatim>\<open>"No reminders set."\<close> line when the record has no reminders, and
  otherwise the lines of its reminders sorted by date. The sort is by the date strings; the
  stored strings are printed dates, so the lines are in the order of the dates themselves
  (ascending ordinals). The sort is stable (the reminders of any one date keep their order
  of insertion) and loses or adds nothing. \<open>view_symptoms\<close> returns the
  \<^verbatim>\<open>"No symptoms logged."\<close> line when there are no symptoms, and otherwise the
  lines of the symptoms in the order they are stored, which is the order of logging. The
  two empty-case lines are never the output for a non-empty sequence.
\<close>

theorem views_order:
  assumes r: "map_of (data (run_ops init ops)) u = Some r"
  shows "view_reminders (run_ops init ops) u =
           (Inr (if reminders r = [] then ''No reminders set.''
                 else join ''\<newline>'' (map reminder_line (sort_key r_date (reminders r)))),
            run_ops init ops) \<and>
         sorted (map r_date (sort_key r_date (reminders r))) \<and>
         (\<exists>ds. map r_date (sort_key r_date (reminders r)) = map isoformat ds \<and>
               list_all valid_date ds \<and> sorted (map toordinal ds)) \<and>
         (\<forall>d. filter (\<lambda>e. r_date e = d) (sort_key r_date (reminders r)) =
              filter (\<lambda>e. r_date e = d) (reminders r)) \<and>
         mset (sort_key r_date (reminders r)) = mset (reminders r) \<and>
         view_symptoms (run_ops init ops) u =
           (Inr (if symptoms r = [] then ''No symptoms logged.''
                 else join ''\<newline>'' (map symptom_line (symptoms r))),
            run_ops init ops) \<and>
         (reminders r \<noteq> [] \<longrightarrow> fst (view_reminders (run_ops init ops) u) \<noteq> Inr ''No reminders set.'') \<and>
         (symptoms r \<noteq> [] \<longrightarrow> fst (view_symptoms (run_ops init ops) u) \<noteq> Inr ''No symptoms logged.'')"
proof -
  let ?s = "run_ops init ops"
  let ?out = "sort_key r_date (reminders r)"
  have vr: "view_reminders ?s u =
           (Inr (if reminders r = [] then ''No reminders set.''
                 else join ''\<newline>'' (map reminder_line ?out)), ?s)"
    using r by (simp add: view_reminders_def)
  have vs: "view_symptoms ?s u =
           (Inr (if symptoms r = [] then ''No symptoms logged.''
                 else join ''\<newline>'' (map symptom_line (symptoms r))), ?s)"
    using r by (simp add: view_symptoms_def)
  have so: "sorted (map r_date ?out)" by (rule sorted_sort_key)
  have "reminders_ok (data ?s)" by (rule reminders_ok_run_ops [OF reminders_ok_init])
  from reminders_ok_lookup [OF this r]
  have "list_all iso_date (map r_date ?out)"
    by (simp add: list_all_iff)
  from iso_dates_obtain [OF this] obtain ds where
    ds: "map r_date ?out = map isoformat ds" "list_all valid_date ds" by blast
  from so ds have "sorted (map toordinal ds)"
    by (intro sorted_isoformat) simp_all
  with ds have ch: "\<exists>ds. map r_date ?out = map isoformat ds \<and>
               list_all valid_date ds \<and> sorted (map toordinal ds)" by blast
  have st: "\<forall>d. filter (\<lambda>e. r_date e = d) ?out = filter (\<lambda>e. r_date e = d) (reminders r)"
    by (simp add: sort_key_stable)
  have ms: "mset ?out = mset (reminders r)" by simp
  have n1: "reminders r \<noteq> [] \<longrightarrow> fst (view_reminders ?s u) \<noteq> Inr ''No reminders set.''"
    using reminders_output_nonempty [of "reminders r" "''\<newline>''"] by (simp add: vr)
  have n2: "symptoms r \<noteq> [] \<longrightarrow> fst (view_symptoms ?s u) \<noteq> Inr ''No symptoms logged.''"
    using symptoms_output_nonempty [of "symptoms r" "''\<newline>''"] by (simp add: vs)
  from vr so ch st ms vs n1 n2 show ?thesis by blast
qed

lemma sort_alice2:
  "sort_key r_date (reminders alice2) =
     [\<lparr>reminder = ''Early'', r_date = ''2024-01-09''\<rparr>,
      \<lparr>reminder = ''Buy supplies'', r_date = ''2024-01-24''\<rparr>,
      \<lparr>reminder = ''Call'', r_date = ''2024-01-24''\<rparr>]"
  by code_simp

theorem views_order_witness:
  "view_reminders (tracker_of [(''alice'', alice2), (''bob'', alice0)]) ''alice'' =
     (Inr ''- Early on 2024-01-09\<newline>- Buy supplies on 2024-01-24\<newline>- Call on 2024-01-24'',
      tracker_of [(''alice'', alice2), (''bob'', alice0)]) \<and>
   view_symptoms (tracker_of [(''alice'', alice2), (''bob'', alice0)]) ''alice'' =
     (Inr ''- cramps (logged on 2024-03-09)\<newline>- headache (logged on 2024-03-08)'',
      tracker_of [(''alice'', alice2), (''bob'', alice0)]) \<and>
   view_reminders (tracker_of [(''alice'', alice2), (''bob'', alice0)]) ''bob'' =
     (Inr ''No reminders set.'', tracker_of [(''alice'', alice2), (''bob'', alice0)]) \<and>
   view_symptoms (tracker_of [(''alice'', alice2), (''bob'', alice0)]) ''bob'' =
     (Inr ''No symptoms logged.'', tracker_of [(''alice'', alice2), (''bob'', alice0)])"
proof -
  have a: "map_of (data (run_ops init session2)) ''alice'' = Some alice2"
    by (simp only: run_session2) (simp add: tracker_of_def)
  have b: "map_of (data (run_ops init session2)) ''bob'' = Some alice0"
    by (simp only: run_session2) (simp add: tracker_of_def)
  have ra: "reminders alice2 \<noteq> []" "symptoms alice2 =
      [\<lparr>symptom = ''cramps'', s_date = ''2024-03-09''\<rparr>, \<lparr>symptom = ''headache'', s_date = ''2024-03-08''\<rparr>]"
    by (simp_all add: alice2_def)
  have rb: "reminders alice0 = []" "symptoms alice0 = []" by (simp_all add: alice0_def)
  from views_order [OF a] views_order [OF b]
  show ?thesis
    by (simp only: run_session2)
       (simp add: ra rb sort_alice2 reminder_line_def symptom_line_def)
qed

end
